theory Spec2Isabelle
  imports Main
begin

section \<open>The keep-alive heartbeat of tampermonkey/keepalive.js\<close>

text \<open>
  The script is one closure holding the variable \<open>lastReloadAt\<close>, three detectors that
  read the document (\<open>findBtn\<close>, \<open>isSolving\<close>, \<open>isNextChallengeReady\<close>), the
  asynchronous \<open>tryStart\<close>, the guarded \<open>safeReload\<close> and the \<open>heartbeat\<close> that
  a timer calls. The model below follows the source function by function.

  What the host supplies is an input of the model: the document as it stands when a tick
  begins, the document found after each wait of the confirmation loop, and the values
  that the calls of \<open>now()\<close> return. What the script does to the host is an output: a
  list of events (console lines, the click, the waits, the reload).
\<close>

subsection \<open>Text\<close>

text \<open>
  A text is a list of 8-bit characters, read as the code units U+0000 to U+00FF of a
  JavaScript string. On this range \<open>String.prototype.toLowerCase\<close> maps A-Z and the
  Latin-1 capitals U+00C0 to U+00DE (without the multiplication sign U+00D7) to the
  character 32 places later, and nothing else.
\<close>

definition upper_case :: string where
  "upper_case = ''ABCDEFGHIJKLMNOPQRSTUVWXYZ''"

definition lower_case :: string where
  "lower_case = ''abcdefghijklmnopqrstuvwxyz''"

definition latin1_upper_case :: string where
  "latin1_upper_case =
     [CHR 0xC0, CHR 0xC1, CHR 0xC2, CHR 0xC3, CHR 0xC4, CHR 0xC5, CHR 0xC6, CHR 0xC7,
      CHR 0xC8, CHR 0xC9, CHR 0xCA, CHR 0xCB, CHR 0xCC, CHR 0xCD, CHR 0xCE, CHR 0xCF,
      CHR 0xD0, CHR 0xD1, CHR 0xD2, CHR 0xD3, CHR 0xD4, CHR 0xD5, CHR 0xD6,
      CHR 0xD8, CHR 0xD9, CHR 0xDA, CHR 0xDB, CHR 0xDC, CHR 0xDD, CHR 0xDE]"

definition latin1_lower_case :: string where
  "latin1_lower_case =
     [CHR 0xE0, CHR 0xE1, CHR 0xE2, CHR 0xE3, CHR 0xE4, CHR 0xE5, CHR 0xE6, CHR 0xE7,
      CHR 0xE8, CHR 0xE9, CHR 0xEA, CHR 0xEB, CHR 0xEC, CHR 0xED, CHR 0xEE, CHR 0xEF,
      CHR 0xF0, CHR 0xF1, CHR 0xF2, CHR 0xF3, CHR 0xF4, CHR 0xF5, CHR 0xF6,
      CHR 0xF8, CHR 0xF9, CHR 0xFA, CHR 0xFB, CHR 0xFC, CHR 0xFD, CHR 0xFE]"

definition toLowerCase_char :: "char \<Rightarrow> char" where
  "toLowerCase_char c =
     (case map_of (zip (upper_case @ latin1_upper_case) (lower_case @ latin1_lower_case)) c of
        Some l \<Rightarrow> l
      | None \<Rightarrow> c)"

definition toLowerCase :: "string \<Rightarrow> string" where
  "toLowerCase s = map toLowerCase_char s"

fun startsWith :: "string \<Rightarrow> string \<Rightarrow> bool" where
  "startsWith s [] = True"
| "startsWith [] (p # ps) = False"
| "startsWith (c # cs) (p # ps) = (c = p \<and> startsWith cs ps)"

text \<open>\<open>String.prototype.includes\<close>: the needle occurs at some position of the text.\<close>

fun includes_str :: "string \<Rightarrow> string \<Rightarrow> bool" where
  "includes_str [] needle = (needle = [])"
| "includes_str (c # cs) needle = (startsWith (c # cs) needle \<or> includes_str cs needle)"

subsection \<open>The four regular expressions\<close>

text \<open>
  All four carry the flag \<open>i\<close> and not the flag \<open>u\<close>, and their literal characters are
  ASCII. Without \<open>u\<close> a character outside ASCII never canonicalises to an ASCII
  character, so a literal letter matches exactly its two ASCII cases. The classes are
  those of ECMAScript on the modelled range: \<open>\d\<close> is 0-9, \<open>\w\<close> is A-Z, a-z, 0-9 and
  the underscore, \<open>\s\<close> is U+0009 to U+000D, the space and U+00A0.
\<close>

definition canonicalize :: "char \<Rightarrow> char" where
  "canonicalize c = (case map_of (zip lower_case upper_case) c of Some u \<Rightarrow> u | None \<Rightarrow> c)"

definition is_digit :: "char \<Rightarrow> bool" where
  "is_digit c = (c \<in> set ''0123456789'')"

definition is_space :: "char \<Rightarrow> bool" where
  "is_space c =
     (c \<in> set [CHR 0x09, CHR 0x0A, CHR 0x0B, CHR 0x0C, CHR 0x0D, CHR 0x20, CHR 0xA0])"

definition is_word :: "char \<Rightarrow> bool" where
  "is_word c = (c \<in> set (upper_case @ lower_case @ ''0123456789_''))"

text \<open>
  A literal of the pattern matched at the head of the text, ignoring case: the rest of
  the text behind it, or \<open>None\<close>.
\<close>

fun literal_ci :: "string \<Rightarrow> string \<Rightarrow> string option" where
  "literal_ci [] s = Some s"
| "literal_ci (p # ps) [] = None"
| "literal_ci (p # ps) (c # cs) =
     (if canonicalize c = canonicalize p then literal_ci ps cs else None)"

text \<open>\<open>/lit/i.test(s)\<close> for a literal pattern: the literal matches at some position.\<close>

fun test_ci :: "string \<Rightarrow> string \<Rightarrow> bool" where
  "test_ci lit [] = (lit = [])"
| "test_ci lit (c # cs) = (literal_ci lit (c # cs) \<noteq> None \<or> test_ci lit cs)"

text \<open>\<open>\d{2}:\d{2}:\d{2}\<close> at the head of the text: the eight characters and the rest.\<close>

fun hms :: "string \<Rightarrow> (string \<times> string) option" where
  "hms (a # b # c # d # e # f # g # h # rest) =
     (if is_digit a \<and> is_digit b \<and> c = CHR '':'' \<and> is_digit d \<and> is_digit e \<and> f = CHR '':''
         \<and> is_digit g \<and> is_digit h
      then Some ([a, b, c, d, e, f, g, h], rest) else None)"
| "hms s = None"

text \<open>
  \<open>time left:\s*(\d{2}:\d{2}:\d{2})\<close> at the head of the text; the result is the
  capture group. The greedy \<open>\s*\<close> never gives a character back with success, since
  what follows it must be a digit.
\<close>

definition time_left_here :: "string \<Rightarrow> string option" where
  "time_left_here s =
     (case literal_ci ''time left:'' s of
        None \<Rightarrow> None
      | Some r \<Rightarrow> (case hms (dropWhile is_space r) of None \<Rightarrow> None | Some (m1, rest) \<Rightarrow> Some m1))"

text \<open>
  \<open>/\btime left:\s*(\d{2}:\d{2}:\d{2})/i.exec(txt)\<close>: the leftmost position with a
  word boundary where the pattern matches. The flag says whether the character before
  the position is a word character; the pattern starts with a letter, so the empty rest
  of the text matches nowhere.
\<close>

fun scan_time_left :: "bool \<Rightarrow> string \<Rightarrow> string option" where
  "scan_time_left w [] = None"
| "scan_time_left w (c # cs) =
     (case (if w \<noteq> is_word c then time_left_here (c # cs) else None) of
        Some m1 \<Rightarrow> Some m1
      | None \<Rightarrow> scan_time_left (is_word c) cs)"

definition exec_time_left :: "string \<Rightarrow> string option" where
  "exec_time_left txt = scan_time_left False txt"

text \<open>
  \<open>next challenge in[:\s]*(\d{2}:\d{2}:\d{2}(?::\d{2})?)\<close> at the head of the text.
  The optional fourth field is greedy: it is taken whenever it is there.
\<close>

definition next_challenge_here :: "string \<Rightarrow> string option" where
  "next_challenge_here s =
     (case literal_ci ''next challenge in'' s of
        None \<Rightarrow> None
      | Some r \<Rightarrow>
         (case hms (dropWhile (\<lambda>c. c = CHR '':'' \<or> is_space c) r) of
            None \<Rightarrow> None
          | Some (m1, rest) \<Rightarrow>
             (case rest of
                c # a # b # rest' \<Rightarrow>
                  if c = CHR '':'' \<and> is_digit a \<and> is_digit b then Some (m1 @ [c, a, b])
                  else Some m1
              | _ \<Rightarrow> Some m1)))"

fun exec_next_challenge :: "string \<Rightarrow> string option" where
  "exec_next_challenge [] = None"
| "exec_next_challenge (c # cs) =
     (case next_challenge_here (c # cs) of
        Some m1 \<Rightarrow> Some m1
      | None \<Rightarrow> exec_next_challenge cs)"

text \<open>\<open>String.prototype.split\<close> with a one-character separator.\<close>

fun split_str :: "char \<Rightarrow> string \<Rightarrow> string list" where
  "split_str sep [] = [[]]"
| "split_str sep (c # cs) =
     (if c = sep then [] # split_str sep cs
      else (case split_str sep cs of [] \<Rightarrow> [[c]] | p # ps \<Rightarrow> (c # p) # ps))"

text \<open>
  \<open>Number\<close> on a text of decimal digits, the only texts it is given: each part of a
  capture group is two digits.
\<close>

definition Number :: "string \<Rightarrow> nat" where
  "Number s = foldl (\<lambda>n c. 10 * n + (of_char c - 48)) 0 s"

subsection \<open>The document\<close>

text \<open>
  A node is a text node or an element with its tag in lower case, its \<open>disabled\<close>
  property and its child nodes. A document is an HTML document: its root is the
  \<open>html\<close> element, and the model holds the child nodes of that root.
\<close>

datatype node = Text string | Element string bool "node list"

type_synonym document = "node list"

fun tagName :: "node \<Rightarrow> string" where
  "tagName (Element t d cs) = t"
| "tagName (Text s) = ''#text''"

fun disabled :: "node \<Rightarrow> bool" where
  "disabled (Element t d cs) = d"
| "disabled (Text s) = False"

fun textContent :: "node \<Rightarrow> string" where
  "textContent (Text s) = s"
| "textContent (Element t d cs) = concat (map textContent cs)"

definition documentElement :: "document \<Rightarrow> node" where
  "documentElement doc = Element ''html'' False doc"

text \<open>
  The elements below and including a node in document order, each with its ancestors
  from the parent up to the root.
\<close>

fun elements :: "node list \<Rightarrow> node \<Rightarrow> (node \<times> node list) list" where
  "elements anc (Text s) = []"
| "elements anc (Element t d cs) =
     (Element t d cs, anc) # concat (map (elements (Element t d cs # anc)) cs)"

definition querySelectorAll :: "string list \<Rightarrow> document \<Rightarrow> (node \<times> node list) list" where
  "querySelectorAll tags doc =
     filter (\<lambda>(el, anc). tagName el \<in> set tags) (elements [] (documentElement doc))"

definition body :: "document \<Rightarrow> node option" where
  "body doc = find (\<lambda>n. tagName n = ''body'' \<or> tagName n = ''frameset'') doc"

text \<open>\<open>row.closest("div") || row.parentElement || document.body\<close>, which may be null.\<close>

definition scope_of :: "document \<Rightarrow> node \<times> node list \<Rightarrow> node option" where
  "scope_of doc row =
     (case find (\<lambda>e. tagName e = ''div'') (fst row # snd row) of
        Some d \<Rightarrow> Some d
      | None \<Rightarrow> (case snd row of p # ps \<Rightarrow> Some p | [] \<Rightarrow> body doc))"

definition findBtn :: "string \<Rightarrow> document \<Rightarrow> node option" where
  "findBtn txt doc =
     find (\<lambda>b. includes_str (toLowerCase (textContent b)) (toLowerCase txt))
       (map fst (querySelectorAll [''button''] doc))"

subsection \<open>Constants, state, events\<close>

definition HEARTBEAT_MS :: int where
  "HEARTBEAT_MS = 10 * 60000"

definition BOOT_GRACE_MS :: int where
  "BOOT_GRACE_MS = 5000"

definition START_WAIT_LOOPS :: nat where
  "START_WAIT_LOOPS = 16"

definition START_WAIT_STEPMS :: nat where
  "START_WAIT_STEPMS = 500"

definition RELOAD_GUARD_MS :: int where
  "RELOAD_GUARD_MS = 60000"

text \<open>
  The state of one run of the script is the variable \<open>lastReloadAt\<close>. It lives as long
  as the page that the script was loaded into: a reload that takes effect ends the run,
  and the script of the new page starts again from \<open>init\<close>.
\<close>

record state =
  lastReloadAt :: int

definition init :: state where
  "init = \<lparr>lastReloadAt = 0\<rparr>"

text \<open>
  The console lines, in the order of the source. Two of them carry a value of the run:
  the countdown found by \<open>isSolving\<close> and the reason given to \<open>safeReload\<close> (the
  time of day that the source appends to the latter depends on the locale and is left
  out).
\<close>

datatype line =
    Challenge_running string
  | Challenge_appears_active
  | Next_challenge_is_ready
  | Starting_session
  | Session_started
  | Start_not_confirmed
  | Reload_guard_active
  | Reloading string
  | Session_running
  | Next_challenge_ready_proceeding
  | Start_not_visible

datatype event = Log line | Click node | Wait nat | Reload

text \<open>The one exception the script can raise: reading \<open>textContent\<close> of null.\<close>

datatype error = TypeError

text \<open>
  What the host gives one tick: the document during the synchronous part of the tick,
  the document found after the wait of each round of the confirmation loop (round 0
  first), and the values of the two calls of \<open>now()\<close> in \<open>safeReload\<close>, the one in the
  test of the guard and the one that is stored.
\<close>

record tick =
  page :: document
  polled :: "nat \<Rightarrow> document"
  now_guard :: int
  now_stamp :: int

subsection \<open>The detectors\<close>

text \<open>The loop over the rows of \<open>isSolving\<close>, with the fall-through behind it.\<close>

fun solving_rows :: "document \<Rightarrow> (node \<times> node list) list \<Rightarrow> error + bool \<times> event list" where
  "solving_rows doc [] = Inr (True, [Log Challenge_appears_active])"
| "solving_rows doc (row # rows) =
     (case scope_of doc row of
        None \<Rightarrow> Inl TypeError
      | Some scope \<Rightarrow>
         (case exec_time_left (textContent scope) of
            None \<Rightarrow> solving_rows doc rows
          | Some m1 \<Rightarrow>
             (case map Number (split_str CHR '':'' m1) of
                h # m2 # s # others \<Rightarrow>
                  if h + m2 + s > 0 then Inr (True, [Log (Challenge_running m1)])
                  else solving_rows doc rows
              | _ \<Rightarrow> solving_rows doc rows)))"

definition isSolving :: "document \<Rightarrow> error + bool \<times> event list" where
  "isSolving doc =
     (let rows = filter (\<lambda>(el, anc). test_ci ''finding a solution'' (textContent el))
                   (querySelectorAll [''div'', ''span'', ''li'', ''section''] doc)
      in if length rows = 0 then Inr (False, []) else solving_rows doc rows)"

fun next_rows :: "document \<Rightarrow> (node \<times> node list) list \<Rightarrow> error + bool \<times> event list" where
  "next_rows doc [] = Inr (False, [])"
| "next_rows doc (row # rows) =
     (case scope_of doc row of
        None \<Rightarrow> Inl TypeError
      | Some scope \<Rightarrow>
         (case exec_next_challenge (textContent scope) of
            None \<Rightarrow> next_rows doc rows
          | Some timeStr \<Rightarrow>
             if list_all (\<lambda>p. p = 0) (map Number (split_str CHR '':'' timeStr))
             then Inr (True, [Log Next_challenge_is_ready])
             else next_rows doc rows))"

definition isNextChallengeReady :: "document \<Rightarrow> error + bool \<times> event list" where
  "isNextChallengeReady doc =
     (let rows = filter (\<lambda>(el, anc). test_ci ''next challenge in'' (textContent el))
                   (querySelectorAll [''div'', ''span''] doc)
      in if length rows = 0 then Inr (False, []) else next_rows doc rows)"

subsection \<open>Starting and reloading\<close>

text \<open>
  The confirmation loop of \<open>tryStart\<close> from round \<open>i\<close> on: wait, then look for the
  stop button in the document of that round.
\<close>

function poll :: "(nat \<Rightarrow> document) \<Rightarrow> nat \<Rightarrow> bool \<times> event list" where
  "poll docs i =
     (if i < START_WAIT_LOOPS then
        (case findBtn ''stop session'' (docs i) of
           Some stop \<Rightarrow> (True, [Wait START_WAIT_STEPMS, Log Session_started])
         | None \<Rightarrow> (case poll docs (Suc i) of (r, ev) \<Rightarrow> (r, Wait START_WAIT_STEPMS # ev)))
      else (False, [Log Start_not_confirmed]))"
  by pat_completeness auto
termination
  by (relation "measure (\<lambda>(docs, i). START_WAIT_LOOPS - i)") auto

definition tryStart :: "tick \<Rightarrow> bool \<times> event list" where
  "tryStart tk =
     (case findBtn ''start session'' (page tk) of
        None \<Rightarrow> (False, [])
      | Some start \<Rightarrow>
          if disabled start then (False, [])
          else (case poll (polled tk) 0 of
                  (r, ev) \<Rightarrow> (r, Log Starting_session # Click start # ev)))"

definition safeReload :: "string \<Rightarrow> tick \<Rightarrow> state \<Rightarrow> state \<times> event list" where
  "safeReload reason tk st =
     (if now_guard tk - lastReloadAt st < RELOAD_GUARD_MS then (st, [Log Reload_guard_active])
      else (st\<lparr>lastReloadAt := now_stamp tk\<rparr>, [Log (Reloading reason), Reload]))"

subsection \<open>One tick, and a run of ticks\<close>

text \<open>The tail that both starting branches of \<open>heartbeat\<close> share, with its reason.\<close>

definition start_or_reload :: "string \<Rightarrow> tick \<Rightarrow> state \<Rightarrow> state \<times> event list" where
  "start_or_reload reason tk st =
     (case tryStart tk of
        (started, ev) \<Rightarrow>
          if \<not> started then
            (case safeReload reason tk st of
               (st', ev') \<Rightarrow> (st', ev @ Log Start_not_visible # ev'))
          else (st, ev))"

definition heartbeat :: "tick \<Rightarrow> state \<Rightarrow> error + state \<times> event list" where
  "heartbeat tk st =
     (case findBtn ''stop session'' (page tk) of
        Some stop \<Rightarrow> Inr (st, [Log Session_running])
      | None \<Rightarrow>
         (case isNextChallengeReady (page tk) of
            Inl e \<Rightarrow> Inl e
          | Inr (nextReady, ev1) \<Rightarrow>
              if nextReady then
                (case start_or_reload ''Next challenge ready but Start not visible'' tk st of
                   (st', ev2) \<Rightarrow> Inr (st', ev1 @ Log Next_challenge_ready_proceeding # ev2))
              else
                (case isSolving (page tk) of
                   Inl e \<Rightarrow> Inl e
                 | Inr (solving, ev3) \<Rightarrow>
                     if solving then Inr (st, ev1 @ ev3)
                     else (case start_or_reload ''session stopped and Start not visible'' tk st of
                             (st', ev2) \<Rightarrow> Inr (st', ev1 @ ev3 @ ev2)))))"

text \<open>
  The timer calls \<open>heartbeat\<close> once after \<open>BOOT_GRACE_MS\<close> and then every
  \<open>HEARTBEAT_MS\<close>. A run is the list of its ticks in order, each finished before the
  next begins; it gives the last state and the events of every tick.
\<close>

fun run :: "tick list \<Rightarrow> state \<Rightarrow> error + state \<times> event list list" where
  "run [] st = Inr (st, [])"
| "run (tk # tks) st =
     (case heartbeat tk st of
        Inl e \<Rightarrow> Inl e
      | Inr (st', ev) \<Rightarrow>
         (case run tks st' of
            Inl e \<Rightarrow> Inl e
          | Inr (st'', evs) \<Rightarrow> Inr (st'', ev # evs)))"

subsection \<open>Reading a list of events\<close>

text \<open>The buttons clicked and the lengths of the waits, in order.\<close>

fun clicked :: "event list \<Rightarrow> node list" where
  "clicked [] = []"
| "clicked (Click b # ev) = b # clicked ev"
| "clicked (e # ev) = clicked ev"

fun waits :: "event list \<Rightarrow> nat list" where
  "waits [] = []"
| "waits (Wait n # ev) = n # waits ev"
| "waits (e # ev) = waits ev"

definition only_logs :: "event list \<Rightarrow> bool" where
  "only_logs ev = (\<forall>e\<in>set ev. \<exists>l. e = Log l)"

subsection \<open>Example pages and ticks\<close>

text \<open>
  Pages on which the theorems below are run: a session running, nothing to see but the
  start button, the start button disabled, a challenge shown as being solved without a
  countdown, and a countdown at zero next to a challenge being solved. In an example
  tick the page stays as it is for the first \<open>k\<close> rounds of the confirmation loop and
  shows the stop button from then on. \<open>request_at t\<close> is a tick on an empty document
  whose clock reads \<open>t\<close>.
\<close>

definition button :: "string \<Rightarrow> bool \<Rightarrow> node" where
  "button label d = Element ''button'' d [Text label]"

definition html_page :: "node list \<Rightarrow> document" where
  "html_page content = [Element ''head'' False [], Element ''body'' False content]"

definition running_page :: document where
  "running_page = html_page [button ''Stop Session'' False]"

definition idle_page :: document where
  "idle_page = html_page [Element ''div'' False [Text ''Welcome''], button ''Start Session'' False]"

definition disabled_page :: document where
  "disabled_page = html_page [button ''Start Session'' True]"


definition ready_solving_page :: document where
  "ready_solving_page = html_page
     [Element ''div'' False [Element ''span'' False [Text ''Next challenge in: 00:00:00:00'']],
      Element ''section'' False [Element ''li'' False [Text ''Finding a solution'']],
      button ''Start Session'' False]"

definition example_tick :: "document \<Rightarrow> nat \<Rightarrow> int \<Rightarrow> int \<Rightarrow> tick" where
  "example_tick doc k t1 t2 =
     \<lparr>page = doc, polled = (\<lambda>i. if i < k then doc else running_page), now_guard = t1, now_stamp = t2\<rparr>"

definition request_at :: "int \<Rightarrow> tick" where
  "request_at t = \<lparr>page = [], polled = (\<lambda>i. []), now_guard = t, now_stamp = t\<rparr>"

definition request_between :: "int \<Rightarrow> int \<Rightarrow> tick" where
  "request_between t1 t2 = \<lparr>page = [], polled = (\<lambda>i. []), now_guard = t1, now_stamp = t2\<rparr>"

definition stalled_page :: document where
  "stalled_page = html_page [Element ''div'' False [Text ''Connect your wallet'']]"

definition bare_page :: document where
  "bare_page = html_page []"

definition ready_disabled_page :: document where
  "ready_disabled_page = html_page
     [Element ''div'' False [Element ''span'' False [Text ''Next challenge in: 00:00:00'']],
      button ''Start Session'' True]"

subsection \<open>Ticks across page loads\<close>

text \<open>
  \<open>location.reload()\<close> loads the page again, and the header of the script
  (\<open>@match https://sm.midnight.gd/*\<close>, \<open>@run-at document-idle\<close>) has it run on the new
  page: \<open>let lastReloadAt = 0\<close> is executed again, and the first tick of the new run
  comes \<open>BOOT_GRACE_MS\<close> after the page is idle. So in the ticks of a browser tab, taken
  across its page loads, the tick after one that reloads starts from \<open>init\<close>.
\<close>

fun run_across_loads :: "tick list \<Rightarrow> state \<Rightarrow> error + event list list" where
  "run_across_loads [] st = Inr []"
| "run_across_loads (tk # tks) st =
     (case heartbeat tk st of
        Inl e \<Rightarrow> Inl e
      | Inr (st', ev) \<Rightarrow>
         (case run_across_loads tks (if Reload \<in> set ev then init else st') of
            Inl e \<Rightarrow> Inl e
          | Inr evs \<Rightarrow> Inr (ev # evs)))"

subsection \<open>Documents with any root element\<close>

text \<open>
  The functions of the script once more, on a document given by its root element, which
  need not be \<open>html\<close> (an XML document served under the matched address, or a page
  whose root a script has replaced). \<open>document.body\<close> is the first \<open>body\<close> or
  \<open>frameset\<close> child of an \<open>html\<close> root and null without such a root. On these
  documents a row can be the root itself, which has no parent element. Each definition
  is the one above with the root in the place of the \<open>html\<close> element.
\<close>

definition body_root :: "node \<Rightarrow> node option" where
  "body_root root =
     (case root of
        Element t d cs \<Rightarrow>
          if t = ''html'' then find (\<lambda>n. tagName n = ''body'' \<or> tagName n = ''frameset'') cs
          else None
      | Text s \<Rightarrow> None)"

definition querySelectorAll_root :: "string list \<Rightarrow> node \<Rightarrow> (node \<times> node list) list" where
  "querySelectorAll_root tags root =
     filter (\<lambda>(el, anc). tagName el \<in> set tags) (elements [] root)"

definition scope_of_root :: "node \<Rightarrow> node \<times> node list \<Rightarrow> node option" where
  "scope_of_root root row =
     (case find (\<lambda>e. tagName e = ''div'') (fst row # snd row) of
        Some d \<Rightarrow> Some d
      | None \<Rightarrow> (case snd row of p # ps \<Rightarrow> Some p | [] \<Rightarrow> body_root root))"

definition findBtn_root :: "string \<Rightarrow> node \<Rightarrow> node option" where
  "findBtn_root txt root =
     find (\<lambda>b. includes_str (toLowerCase (textContent b)) (toLowerCase txt))
       (map fst (querySelectorAll_root [''button''] root))"

fun solving_rows_root :: "node \<Rightarrow> (node \<times> node list) list \<Rightarrow> error + bool \<times> event list" where
  "solving_rows_root root [] = Inr (True, [Log Challenge_appears_active])"
| "solving_rows_root root (row # rows) =
     (case scope_of_root root row of
        None \<Rightarrow> Inl TypeError
      | Some scope \<Rightarrow>
         (case exec_time_left (textContent scope) of
            None \<Rightarrow> solving_rows_root root rows
          | Some m1 \<Rightarrow>
             (case map Number (split_str CHR '':'' m1) of
                h # m2 # s # others \<Rightarrow>
                  if h + m2 + s > 0 then Inr (True, [Log (Challenge_running m1)])
                  else solving_rows_root root rows
              | _ \<Rightarrow> solving_rows_root root rows)))"

definition isSolving_root :: "node \<Rightarrow> error + bool \<times> event list" where
  "isSolving_root root =
     (let rows = filter (\<lambda>(el, anc). test_ci ''finding a solution'' (textContent el))
                   (querySelectorAll_root [''div'', ''span'', ''li'', ''section''] root)
      in if length rows = 0 then Inr (False, []) else solving_rows_root root rows)"

fun next_rows_root :: "node \<Rightarrow> (node \<times> node list) list \<Rightarrow> error + bool \<times> event list" where
  "next_rows_root root [] = Inr (False, [])"
| "next_rows_root root (row # rows) =
     (case scope_of_root root row of
        None \<Rightarrow> Inl TypeError
      | Some scope \<Rightarrow>
         (case exec_next_challenge (textContent scope) of
            None \<Rightarrow> next_rows_root root rows
          | Some timeStr \<Rightarrow>
             if list_all (\<lambda>p. p = 0) (map Number (split_str CHR '':'' timeStr))
             then Inr (True, [Log Next_challenge_is_ready])
             else next_rows_root root rows))"

definition isNextChallengeReady_root :: "node \<Rightarrow> error + bool \<times> event list" where
  "isNextChallengeReady_root root =
     (let rows = filter (\<lambda>(el, anc). test_ci ''next challenge in'' (textContent el))
                   (querySelectorAll_root [''div'', ''span''] root)
      in if length rows = 0 then Inr (False, []) else next_rows_root root rows)"

record root_tick =
  root_page :: node
  root_polled :: "nat \<Rightarrow> node"
  root_now_guard :: int
  root_now_stamp :: int

function poll_root :: "(nat \<Rightarrow> node) \<Rightarrow> nat \<Rightarrow> bool \<times> event list" where
  "poll_root roots i =
     (if i < START_WAIT_LOOPS then
        (case findBtn_root ''stop session'' (roots i) of
           Some stop \<Rightarrow> (True, [Wait START_WAIT_STEPMS, Log Session_started])
         | None \<Rightarrow> (case poll_root roots (Suc i) of (r, ev) \<Rightarrow> (r, Wait START_WAIT_STEPMS # ev)))
      else (False, [Log Start_not_confirmed]))"
  by pat_completeness auto
termination
  by (relation "measure (\<lambda>(roots, i). START_WAIT_LOOPS - i)") auto

definition tryStart_root :: "root_tick \<Rightarrow> bool \<times> event list" where
  "tryStart_root tk =
     (case findBtn_root ''start session'' (root_page tk) of
        None \<Rightarrow> (False, [])
      | Some start \<Rightarrow>
          if disabled start then (False, [])
          else (case poll_root (root_polled tk) 0 of
                  (r, ev) \<Rightarrow> (r, Log Starting_session # Click start # ev)))"

definition safeReload_root :: "string \<Rightarrow> root_tick \<Rightarrow> state \<Rightarrow> state \<times> event list" where
  "safeReload_root reason tk st =
     (if root_now_guard tk - lastReloadAt st < RELOAD_GUARD_MS
      then (st, [Log Reload_guard_active])
      else (st\<lparr>lastReloadAt := root_now_stamp tk\<rparr>, [Log (Reloading reason), Reload]))"

definition start_or_reload_root :: "string \<Rightarrow> root_tick \<Rightarrow> state \<Rightarrow> state \<times> event list" where
  "start_or_reload_root reason tk st =
     (case tryStart_root tk of
        (started, ev) \<Rightarrow>
          if \<not> started then
            (case safeReload_root reason tk st of
               (st', ev') \<Rightarrow> (st', ev @ Log Start_not_visible # ev'))
          else (st, ev))"

definition heartbeat_root :: "root_tick \<Rightarrow> state \<Rightarrow> error + state \<times> event list" where
  "heartbeat_root tk st =
     (case findBtn_root ''stop session'' (root_page tk) of
        Some stop \<Rightarrow> Inr (st, [Log Session_running])
      | None \<Rightarrow>
         (case isNextChallengeReady_root (root_page tk) of
            Inl e \<Rightarrow> Inl e
          | Inr (nextReady, ev1) \<Rightarrow>
              if nextReady then
                (case start_or_reload_root ''Next challenge ready but Start not visible'' tk st of
                   (st', ev2) \<Rightarrow> Inr (st', ev1 @ Log Next_challenge_ready_proceeding # ev2))
              else
                (case isSolving_root (root_page tk) of
                   Inl e \<Rightarrow> Inl e
                 | Inr (solving, ev3) \<Rightarrow>
                     if solving then Inr (st, ev1 @ ev3)
                     else (case start_or_reload_root ''session stopped and Start not visible'' tk st of
                             (st', ev2) \<Rightarrow> Inr (st', ev1 @ ev3 @ ev2)))))"

text \<open>A tick on an HTML document, read as a tick on the document under its \<open>html\<close> root.\<close>

definition on_html_root :: "tick \<Rightarrow> root_tick" where
  "on_html_root tk =
     \<lparr>root_page = documentElement (page tk),
      root_polled = (\<lambda>i. documentElement (polled tk i)),
      root_now_guard = now_guard tk, root_now_stamp = now_stamp tk\<rparr>"

text \<open>
  A document whose root is a \<open>span\<close> reading "Finding a solution", and a tick on it
  whose clock reads \<open>t\<close>.
\<close>

definition span_document :: node where
  "span_document = Element ''span'' False [Text ''Finding a solution'']"

definition span_tick :: "int \<Rightarrow> root_tick" where
  "span_tick t =
     \<lparr>root_page = span_document, root_polled = (\<lambda>i. span_document),
      root_now_guard = t, root_now_stamp = t\<rparr>"

section \<open>Properties\<close>

subsection \<open>The detectors never fail\<close>

text \<open>
  A row is a \<open>div\<close>, \<open>span\<close>, \<open>li\<close> or \<open>section\<close> of an HTML document, so it lies
  below the root and has a parent element: the scope of a row is never null.
\<close>

lemma elements_ancestors:
  "row \<in> set (elements anc n) \<Longrightarrow> anc \<noteq> [] \<Longrightarrow> snd row \<noteq> []"
  by (induction anc n rule: elements.induct) auto

lemma querySelectorAll_parent:
  assumes "row \<in> set (querySelectorAll tags doc)" and "''html'' \<notin> set tags"
  shows "snd row \<noteq> []"
proof -
  from assms have "row \<in> set (elements [] (documentElement doc))" and "tagName (fst row) \<in> set tags"
    by (auto simp: querySelectorAll_def)
  with assms(2) have "row \<in> set (concat (map (elements [documentElement doc]) doc))"
    by (auto simp: documentElement_def)
  then show ?thesis
    by (auto dest: elements_ancestors)
qed

lemma scope_of_parent: "snd row \<noteq> [] \<Longrightarrow> scope_of doc row \<noteq> None"
  by (cases "snd row") (auto simp: scope_of_def split: option.splits)

lemma solving_rows_result:
  "\<forall>row\<in>set rows. snd row \<noteq> [] \<Longrightarrow> \<exists>ev. solving_rows doc rows = Inr (True, ev) \<and> only_logs ev"
proof (induction rows)
  case Nil
  show ?case by (simp add: only_logs_def)
next
  case (Cons row rows)
  then obtain scope where "scope_of doc row = Some scope"
    using scope_of_parent [of row doc] by auto
  with Cons show ?case
    by (auto simp: only_logs_def split: option.splits list.splits)
qed

lemma next_rows_result:
  "\<forall>row\<in>set rows. snd row \<noteq> [] \<Longrightarrow>
     next_rows doc rows = Inr (False, []) \<or> next_rows doc rows = Inr (True, [Log Next_challenge_is_ready])"
proof (induction rows)
  case Nil
  show ?case by simp
next
  case (Cons row rows)
  then obtain scope where "scope_of doc row = Some scope"
    using scope_of_parent [of row doc] by auto
  with Cons show ?case
    by (auto split: option.splits)
qed

lemma isSolving_result:
  "\<exists>ev. isSolving doc =
      Inr (\<exists>row\<in>set (querySelectorAll [''div'', ''span'', ''li'', ''section''] doc).
             test_ci ''finding a solution'' (textContent (fst row)), ev) \<and> only_logs ev"
proof -
  let ?rows = "filter (\<lambda>(el, anc). test_ci ''finding a solution'' (textContent el))
                 (querySelectorAll [''div'', ''span'', ''li'', ''section''] doc)"
  have parents: "\<forall>row\<in>set ?rows. snd row \<noteq> []"
    using querySelectorAll_parent [of _ "[''div'', ''span'', ''li'', ''section'']" doc] by auto
  show ?thesis
  proof (cases "?rows = []")
    case True
    then show ?thesis
      by (auto simp: isSolving_def only_logs_def filter_empty_conv)
  next
    case False
    then have "\<exists>row\<in>set (querySelectorAll [''div'', ''span'', ''li'', ''section''] doc).
             test_ci ''finding a solution'' (textContent (fst row))"
      by (force simp: filter_empty_conv)
    with False solving_rows_result [OF parents, of doc] show ?thesis
      by (simp add: isSolving_def Let_def)
  qed
qed

lemma isNextChallengeReady_result:
  "isNextChallengeReady doc = Inr (False, []) \<or>
   isNextChallengeReady doc = Inr (True, [Log Next_challenge_is_ready])"
proof -
  let ?rows = "filter (\<lambda>(el, anc). test_ci ''next challenge in'' (textContent el))
                 (querySelectorAll [''div'', ''span''] doc)"
  have parents: "\<forall>row\<in>set ?rows. snd row \<noteq> []"
    using querySelectorAll_parent [of _ "[''div'', ''span'']" doc] by auto
  from next_rows_result [OF parents, of doc] show ?thesis
    by (auto simp: isNextChallengeReady_def Let_def)
qed



lemma isNextChallengeReady_no_rows:
  "\<not> (\<exists>row\<in>set (querySelectorAll [''div'', ''span''] doc).
        test_ci ''next challenge in'' (textContent (fst row))) \<Longrightarrow>
   isNextChallengeReady doc = Inr (False, [])"
  by (auto simp: isNextChallengeReady_def filter_empty_conv)


lemma toLowerCase_stop: "toLowerCase ''stop session'' = ''stop session''"
  by code_simp

lemma findBtn_None_iff:
  "findBtn txt doc = None \<longleftrightarrow>
   (\<forall>b\<in>set (map fst (querySelectorAll [''button''] doc)).
      \<not> includes_str (toLowerCase (textContent b)) (toLowerCase txt))"
  by (simp add: findBtn_def find_None_iff)

subsection \<open>Events, and the confirmation loop\<close>

lemma clicked_append: "clicked (xs @ ys) = clicked xs @ clicked ys"
  by (induction xs rule: clicked.induct) auto

lemma waits_append: "waits (xs @ ys) = waits xs @ waits ys"
  by (induction xs rule: waits.induct) auto

lemma only_logs_clicked: "only_logs ev \<Longrightarrow> clicked ev = [] \<and> waits ev = [] \<and> Reload \<notin> set ev"
  by (induction ev) (auto simp: only_logs_def)

declare poll.simps [simp del]

lemma poll_shape:
  "\<exists>n. n \<le> START_WAIT_LOOPS - i \<and>
     snd (poll docs i) = replicate n (Wait START_WAIT_STEPMS)
        @ [Log (if fst (poll docs i) then Session_started else Start_not_confirmed)]"
proof (induction docs i rule: poll.induct)
  case (1 docs i)
  show ?case
  proof (cases "i < START_WAIT_LOOPS")
    case False
    then show ?thesis by (simp add: poll.simps [of docs i])
  next
    case inside: True
    show ?thesis
    proof (cases "findBtn ''stop session'' (docs i)")
      case (Some stop)
      with inside have "poll docs i = (True, [Wait START_WAIT_STEPMS, Log Session_started])"
        by (simp add: poll.simps [of docs i])
      with inside show ?thesis
        by (intro exI [of _ 1]) simp
    next
      case None
      with inside 1 obtain n where n: "n \<le> START_WAIT_LOOPS - Suc i"
        and shape: "snd (poll docs (Suc i)) = replicate n (Wait START_WAIT_STEPMS)
           @ [Log (if fst (poll docs (Suc i)) then Session_started else Start_not_confirmed)]"
        by blast
      from None inside have step: "poll docs i =
          (fst (poll docs (Suc i)), Wait START_WAIT_STEPMS # snd (poll docs (Suc i)))"
        by (simp add: poll.simps [of docs i] split: prod.splits)
      from n inside have "Suc n \<le> START_WAIT_LOOPS - i" by simp
      with step shape show ?thesis
        by (intro exI [of _ "Suc n"]) simp
    qed
  qed
qed

lemma poll_confirmed:
  "fst (poll docs i) \<longleftrightarrow> (\<exists>j. i \<le> j \<and> j < START_WAIT_LOOPS \<and> findBtn ''stop session'' (docs j) \<noteq> None)"
proof (induction docs i rule: poll.induct)
  case (1 docs i)
  show ?case
  proof (cases "i < START_WAIT_LOOPS")
    case False
    then show ?thesis by (auto simp: poll.simps [of docs i])
  next
    case inside: True
    show ?thesis
    proof (cases "findBtn ''stop session'' (docs i)")
      case (Some stop)
      with inside show ?thesis
        by (auto simp: poll.simps [of docs i])
    next
      case None
      with inside have "fst (poll docs i) = fst (poll docs (Suc i))"
        by (simp add: poll.simps [of docs i] split: prod.splits)
      also from 1 inside None have "\<dots> \<longleftrightarrow>
         (\<exists>j. Suc i \<le> j \<and> j < START_WAIT_LOOPS \<and> findBtn ''stop session'' (docs j) \<noteq> None)"
        by blast
      also from None have "\<dots> \<longleftrightarrow>
         (\<exists>j. i \<le> j \<and> j < START_WAIT_LOOPS \<and> findBtn ''stop session'' (docs j) \<noteq> None)"
        by (metis Suc_leD Suc_leI le_neq_implies_less)
      finally show ?thesis .
    qed
  qed
qed

lemma poll_exhausted:
  "\<forall>j. i \<le> j \<and> j < START_WAIT_LOOPS \<longrightarrow> findBtn ''stop session'' (docs j) = None \<Longrightarrow>
   poll docs i = (False, replicate (START_WAIT_LOOPS - i) (Wait START_WAIT_STEPMS) @ [Log Start_not_confirmed])"
proof (induction docs i rule: poll.induct)
  case (1 docs i)
  show ?case
  proof (cases "i < START_WAIT_LOOPS")
    case False
    then show ?thesis by (simp add: poll.simps [of docs i])
  next
    case inside: True
    with 1 have none: "findBtn ''stop session'' (docs i) = None" by simp
    with 1 inside have "poll docs (Suc i) =
       (False, replicate (START_WAIT_LOOPS - Suc i) (Wait START_WAIT_STEPMS) @ [Log Start_not_confirmed])"
      by simp
    moreover from inside have "START_WAIT_LOOPS - i = Suc (START_WAIT_LOOPS - Suc i)" by simp
    ultimately show ?thesis
      using inside none by (simp add: poll.simps [of docs i])
  qed
qed

lemma waits_replicate: "waits (replicate n (Wait d) @ [Log l]) = replicate n d"
  by (induction n) auto

lemma clicked_replicate: "clicked (replicate n (Wait d) @ [Log l]) = []"
  by (induction n) auto

subsection \<open>Starting, reloading and the four ends of a tick\<close>

lemma tryStart_absent:
  "findBtn ''start session'' (page tk) = None \<Longrightarrow> tryStart tk = (False, [])"
  by (simp add: tryStart_def)

lemma tryStart_disabled:
  "findBtn ''start session'' (page tk) = Some b \<Longrightarrow> disabled b \<Longrightarrow> tryStart tk = (False, [])"
  by (simp add: tryStart_def)

lemma tryStart_enabled:
  "findBtn ''start session'' (page tk) = Some b \<Longrightarrow> \<not> disabled b \<Longrightarrow>
   tryStart tk = (fst (poll (polled tk) 0), Log Starting_session # Click b # snd (poll (polled tk) 0))"
  by (simp add: tryStart_def split: prod.splits)

lemma tryStart_events:
  "Reload \<notin> set (snd (tryStart tk)) \<and> length (clicked (snd (tryStart tk))) \<le> 1 \<and>
   (\<exists>n\<le>START_WAIT_LOOPS. waits (snd (tryStart tk)) = replicate n START_WAIT_STEPMS)"
proof (cases "findBtn ''start session'' (page tk)")
  case None
  then show ?thesis by (simp add: tryStart_absent)
next
  case (Some b)
  show ?thesis
  proof (cases "disabled b")
    case True
    with Some show ?thesis by (simp add: tryStart_disabled)
  next
    case False
    from poll_shape [of 0 "polled tk"] obtain n l where n: "n \<le> START_WAIT_LOOPS"
      and shape: "snd (poll (polled tk) 0) = replicate n (Wait START_WAIT_STEPMS) @ [Log l]"
      by auto
    from Some False shape have "snd (tryStart tk) =
        Log Starting_session # Click b # replicate n (Wait START_WAIT_STEPMS) @ [Log l]"
      by (simp add: tryStart_enabled)
    with n show ?thesis
      by (auto simp: waits_replicate clicked_replicate)
  qed
qed

lemma tryStart_clicks:
  "findBtn ''start session'' (page tk) = Some b \<Longrightarrow> \<not> disabled b \<Longrightarrow>
   clicked (snd (tryStart tk)) = [b]"
proof -
  assume found: "findBtn ''start session'' (page tk) = Some b" and enabled: "\<not> disabled b"
  from poll_shape [of 0 "polled tk"] obtain n l
    where "snd (poll (polled tk) 0) = replicate n (Wait START_WAIT_STEPMS) @ [Log l]"
    by auto
  with found enabled show ?thesis
    by (simp add: tryStart_enabled clicked_replicate)
qed

lemma tryStart_confirmed_iff:
  "fst (tryStart tk) \<longleftrightarrow>
     (\<exists>b. findBtn ''start session'' (page tk) = Some b \<and> \<not> disabled b) \<and>
     (\<exists>j<START_WAIT_LOOPS. findBtn ''stop session'' (polled tk j) \<noteq> None)"
proof (cases "findBtn ''start session'' (page tk)")
  case None
  then show ?thesis by (simp add: tryStart_absent)
next
  case (Some b)
  show ?thesis
  proof (cases "disabled b")
    case True
    with Some show ?thesis by (simp add: tryStart_disabled)
  next
    case False
    with Some show ?thesis
      by (simp add: tryStart_enabled poll_confirmed)
  qed
qed

lemma safeReload_blocked:
  "now_guard tk - lastReloadAt st < RELOAD_GUARD_MS \<Longrightarrow>
   safeReload reason tk st = (st, [Log Reload_guard_active])"
  by (simp add: safeReload_def)

lemma safeReload_allowed:
  "RELOAD_GUARD_MS \<le> now_guard tk - lastReloadAt st \<Longrightarrow>
   safeReload reason tk st = (st\<lparr>lastReloadAt := now_stamp tk\<rparr>, [Log (Reloading reason), Reload])"
  by (simp add: safeReload_def)

lemma safeReload_events:
  "clicked (snd (safeReload reason tk st)) = [] \<and> waits (snd (safeReload reason tk st)) = []"
  by (simp add: safeReload_def)

lemma start_or_reload_confirmed:
  "fst (tryStart tk) \<Longrightarrow> start_or_reload reason tk st = (st, snd (tryStart tk))"
  by (cases "tryStart tk") (simp add: start_or_reload_def split: prod.splits)

lemma start_or_reload_unconfirmed:
  "\<not> fst (tryStart tk) \<Longrightarrow> start_or_reload reason tk st =
     (fst (safeReload reason tk st),
      snd (tryStart tk) @ Log Start_not_visible # snd (safeReload reason tk st))"
  by (cases "tryStart tk") (simp add: start_or_reload_def split: prod.splits)

lemma heartbeat_running:
  "findBtn ''stop session'' (page tk) = Some stop \<Longrightarrow>
   heartbeat tk st = Inr (st, [Log Session_running])"
  by (simp add: heartbeat_def)

lemma heartbeat_ready:
  "findBtn ''stop session'' (page tk) = None \<Longrightarrow>
   isNextChallengeReady (page tk) = Inr (True, ev1) \<Longrightarrow>
   heartbeat tk st =
     Inr (fst (start_or_reload ''Next challenge ready but Start not visible'' tk st),
          ev1 @ Log Next_challenge_ready_proceeding #
            snd (start_or_reload ''Next challenge ready but Start not visible'' tk st))"
  by (simp add: heartbeat_def split: prod.splits)

lemma heartbeat_solving:
  "findBtn ''stop session'' (page tk) = None \<Longrightarrow>
   isNextChallengeReady (page tk) = Inr (False, ev1) \<Longrightarrow>
   isSolving (page tk) = Inr (True, ev3) \<Longrightarrow>
   heartbeat tk st = Inr (st, ev1 @ ev3)"
  by (simp add: heartbeat_def)

lemma heartbeat_default:
  "findBtn ''stop session'' (page tk) = None \<Longrightarrow>
   isNextChallengeReady (page tk) = Inr (False, ev1) \<Longrightarrow>
   isSolving (page tk) = Inr (False, ev3) \<Longrightarrow>
   heartbeat tk st =
     Inr (fst (start_or_reload ''session stopped and Start not visible'' tk st),
          ev1 @ ev3 @ snd (start_or_reload ''session stopped and Start not visible'' tk st))"
  by (simp add: heartbeat_def split: prod.splits)

text \<open>Every tick ends in one of four ways.\<close>

lemma heartbeat_cases:
  "(findBtn ''stop session'' (page tk) \<noteq> None \<and> heartbeat tk st = Inr (st, [Log Session_running]))
   \<or> (findBtn ''stop session'' (page tk) = None \<and>
       (\<exists>ev. only_logs ev \<and> isSolving (page tk) = Inr (True, ev) \<and> heartbeat tk st = Inr (st, ev)))
   \<or> (findBtn ''stop session'' (page tk) = None \<and> fst (tryStart tk) \<and>
       (\<exists>pre. only_logs pre \<and> heartbeat tk st = Inr (st, pre @ snd (tryStart tk))))
   \<or> (findBtn ''stop session'' (page tk) = None \<and> \<not> fst (tryStart tk) \<and>
       (\<exists>pre reason. only_logs pre \<and> heartbeat tk st =
          Inr (fst (safeReload reason tk st),
               pre @ snd (tryStart tk) @ Log Start_not_visible # snd (safeReload reason tk st))))"
proof (cases "findBtn ''stop session'' (page tk)")
  case (Some stop)
  then show ?thesis by (simp add: heartbeat_running)
next
  case None
  from isNextChallengeReady_result [of "page tk"] show ?thesis
  proof
    assume ready: "isNextChallengeReady (page tk) = Inr (True, [Log Next_challenge_is_ready])"
    let ?pre = "[Log Next_challenge_is_ready, Log Next_challenge_ready_proceeding]"
    have pre: "only_logs ?pre" by (simp add: only_logs_def)
    show ?thesis
    proof (cases "fst (tryStart tk)")
      case True
      with None ready have "heartbeat tk st = Inr (st, ?pre @ snd (tryStart tk))"
        by (simp add: heartbeat_ready start_or_reload_confirmed)
      with None True pre show ?thesis by blast
    next
      case False
      with None ready have "heartbeat tk st =
          Inr (fst (safeReload ''Next challenge ready but Start not visible'' tk st),
               ?pre @ snd (tryStart tk) @ Log Start_not_visible #
                 snd (safeReload ''Next challenge ready but Start not visible'' tk st))"
        by (simp add: heartbeat_ready start_or_reload_unconfirmed)
      with None False pre show ?thesis by blast
    qed
  next
    assume waiting: "isNextChallengeReady (page tk) = Inr (False, [])"
    from isSolving_result [of "page tk"] obtain solving ev
      where sol: "isSolving (page tk) = Inr (solving, ev)" and ev: "only_logs ev"
      by blast
    show ?thesis
    proof (cases solving)
      case True
      with sol have busy: "isSolving (page tk) = Inr (True, ev)" by simp
      with None waiting have "heartbeat tk st = Inr (st, ev)"
        by (simp add: heartbeat_solving)
      with None busy ev show ?thesis by blast
    next
      case idle: False
      show ?thesis
      proof (cases "fst (tryStart tk)")
        case True
        with None waiting sol idle have "heartbeat tk st = Inr (st, ev @ snd (tryStart tk))"
          by (simp add: heartbeat_default start_or_reload_confirmed)
        with None True ev show ?thesis by blast
      next
        case False
        with None waiting sol idle have "heartbeat tk st =
            Inr (fst (safeReload ''session stopped and Start not visible'' tk st),
                 ev @ snd (tryStart tk) @ Log Start_not_visible #
                   snd (safeReload ''session stopped and Start not visible'' tk st))"
          by (simp add: heartbeat_default start_or_reload_unconfirmed)
        with None False ev show ?thesis by blast
      qed
    qed
  qed
qed

lemma heartbeat_returns: "\<exists>st' ev. heartbeat tk st = Inr (st', ev)"
  using heartbeat_cases [of tk st] by blast

text \<open>What one tick does to the state: nothing, or the stamp of a reload that the guard let pass.\<close>

lemma heartbeat_state:
  assumes "heartbeat tk st = Inr (st', ev)"
  shows "(st' = st \<and> Reload \<notin> set ev) \<or>
         (st' = st\<lparr>lastReloadAt := now_stamp tk\<rparr> \<and> Reload \<in> set ev \<and>
          lastReloadAt st + RELOAD_GUARD_MS \<le> now_guard tk)"
proof -
  have quiet: "Reload \<notin> set (pre @ snd (tryStart tk))" if "only_logs pre" for pre
    using that tryStart_events [of tk] only_logs_clicked [of pre] by simp
  from heartbeat_cases [of tk st] show ?thesis
  proof (elim disjE conjE exE)
    assume "heartbeat tk st = Inr (st, [Log Session_running])"
    with assms show ?thesis by auto
  next
    fix ev' assume "only_logs ev'" "heartbeat tk st = Inr (st, ev')"
    with assms only_logs_clicked [of ev'] show ?thesis by auto
  next
    fix pre assume "only_logs pre" "heartbeat tk st = Inr (st, pre @ snd (tryStart tk))"
    with assms quiet [of pre] show ?thesis by auto
  next
    fix pre reason
    assume pre: "only_logs pre" and hb: "heartbeat tk st =
          Inr (fst (safeReload reason tk st),
               pre @ snd (tryStart tk) @ Log Start_not_visible # snd (safeReload reason tk st))"
    show ?thesis
    proof (cases "now_guard tk - lastReloadAt st < RELOAD_GUARD_MS")
      case True
      with hb assms quiet [OF pre] show ?thesis
        by (auto simp: safeReload_blocked)
    next
      case False
      with hb assms show ?thesis
        by (auto simp: safeReload_allowed)
    qed
  qed
qed

lemma heartbeat_monotone:
  "heartbeat tk st = Inr (st', ev) \<Longrightarrow> now_guard tk \<le> now_stamp tk \<Longrightarrow>
   lastReloadAt st \<le> lastReloadAt st'"
  using heartbeat_state [of tk st st' ev] by (auto simp: RELOAD_GUARD_MS_def)

lemma heartbeat_one_reload:
  assumes "heartbeat tk st = Inr (st', ev)"
  shows "count_list ev Reload \<le> 1"
proof -
  have logs: "count_list pre Reload = 0" if "only_logs pre" for pre
    using that only_logs_clicked [of pre] by (simp add: count_list_0_iff)
  have start: "count_list (snd (tryStart tk)) Reload = 0"
    using tryStart_events [of tk] by (simp add: count_list_0_iff)
  have reload: "count_list (snd (safeReload reason tk st)) Reload \<le> 1" for reason
    by (simp add: safeReload_def)
  from heartbeat_cases [of tk st] show ?thesis
  proof (elim disjE conjE exE)
    assume "heartbeat tk st = Inr (st, [Log Session_running])"
    with assms show ?thesis by auto
  next
    fix ev' assume "only_logs ev'" "heartbeat tk st = Inr (st, ev')"
    with assms logs [of ev'] show ?thesis by auto
  next
    fix pre assume "only_logs pre" "heartbeat tk st = Inr (st, pre @ snd (tryStart tk))"
    with assms logs [of pre] start show ?thesis by auto
  next
    fix pre reason
    assume "only_logs pre" and "heartbeat tk st =
          Inr (fst (safeReload reason tk st),
               pre @ snd (tryStart tk) @ Log Start_not_visible # snd (safeReload reason tk st))"
    with assms logs [of pre] start reload [of reason] show ?thesis by auto
  qed
qed

text \<open>All clicks and waits of a tick are those of its one call of \<open>tryStart\<close>, if any.\<close>

lemma heartbeat_clicks_waits:
  assumes "heartbeat tk st = Inr (st', ev)"
  shows "(clicked ev = [] \<and> waits ev = []) \<or>
         (clicked ev = clicked (snd (tryStart tk)) \<and> waits ev = waits (snd (tryStart tk)))"
proof -
  from heartbeat_cases [of tk st] show ?thesis
  proof (elim disjE conjE exE)
    assume "heartbeat tk st = Inr (st, [Log Session_running])"
    with assms show ?thesis by auto
  next
    fix ev' assume "only_logs ev'" "heartbeat tk st = Inr (st, ev')"
    with assms only_logs_clicked [of ev'] show ?thesis by auto
  next
    fix pre assume "only_logs pre" "heartbeat tk st = Inr (st, pre @ snd (tryStart tk))"
    with assms only_logs_clicked [of pre] show ?thesis
      by (auto simp: clicked_append waits_append)
  next
    fix pre reason
    assume "only_logs pre" and "heartbeat tk st =
          Inr (fst (safeReload reason tk st),
               pre @ snd (tryStart tk) @ Log Start_not_visible # snd (safeReload reason tk st))"
    with assms only_logs_clicked [of pre] safeReload_events [of reason tk st] show ?thesis
      by (auto simp: clicked_append waits_append)
  qed
qed

text \<open>
  A tick depends on its page and clock through the stop button, the two detectors,
  \<open>tryStart\<close> and the two readings of the clock only.
\<close>

lemma heartbeat_cong:
  assumes "findBtn ''stop session'' (page tk') = findBtn ''stop session'' (page tk)"
    and "isNextChallengeReady (page tk') = isNextChallengeReady (page tk)"
    and "isSolving (page tk') = isSolving (page tk)"
    and "tryStart tk' = tryStart tk"
    and "now_guard tk' = now_guard tk" and "now_stamp tk' = now_stamp tk"
  shows "heartbeat tk' st = heartbeat tk st"
proof -
  have "safeReload reason tk' st = safeReload reason tk st" for reason
    using assms(5,6) by (simp add: safeReload_def)
  with assms(4) have "start_or_reload reason tk' st = start_or_reload reason tk st" for reason
    by (simp add: start_or_reload_def split: prod.splits)
  with assms(1-3) show ?thesis
    by (simp add: heartbeat_def split: option.splits sum.splits prod.splits)
qed

subsection \<open>Runs of ticks\<close>

lemma run_Cons:
  "run (tk # tks) st = Inr (st'', evs) \<Longrightarrow>
   \<exists>st' ev evs'. heartbeat tk st = Inr (st', ev) \<and> run tks st' = Inr (st'', evs') \<and> evs = ev # evs'"
  by (auto split: sum.splits)

lemma run_returns: "\<exists>st' evs. run tks st = Inr (st', evs)"
proof (induction tks arbitrary: st)
  case Nil
  show ?case by simp
next
  case (Cons tk tks)
  from heartbeat_returns [of tk st] obtain st1 ev where "heartbeat tk st = Inr (st1, ev)"
    by blast
  moreover from Cons [of st1] obtain st' evs where "run tks st1 = Inr (st', evs)"
    by blast
  ultimately show ?case by simp
qed

lemma run_monotone:
  "run tks st = Inr (st', evs) \<Longrightarrow> \<forall>tk\<in>set tks. now_guard tk \<le> now_stamp tk \<Longrightarrow>
   lastReloadAt st \<le> lastReloadAt st'"
proof (induction tks arbitrary: st evs)
  case Nil
  then show ?case by simp
next
  case (Cons tk tks)
  from run_Cons [OF Cons.prems(1)] obtain st1 ev evs'
    where step: "heartbeat tk st = Inr (st1, ev)" and rest: "run tks st1 = Inr (st', evs')"
    by blast
  from step Cons.prems(2) have "lastReloadAt st \<le> lastReloadAt st1"
    by (simp add: heartbeat_monotone)
  also from rest Cons.prems(2) have "\<dots> \<le> lastReloadAt st'"
    by (intro Cons.IH) auto
  finally show ?case .
qed

text \<open>A reload in tick \<open>j\<close> of a run lies a guard window behind the timestamp the run began with.\<close>

lemma run_reload_after_start:
  "run tks st = Inr (st', evs) \<Longrightarrow> \<forall>tk\<in>set tks. now_guard tk \<le> now_stamp tk \<Longrightarrow>
   j < length tks \<Longrightarrow> Reload \<in> set (evs ! j) \<Longrightarrow>
   lastReloadAt st + RELOAD_GUARD_MS \<le> now_guard (tks ! j)"
proof (induction tks arbitrary: st evs j)
  case Nil
  then show ?case by simp
next
  case (Cons tk tks)
  from run_Cons [OF Cons.prems(1)] obtain st1 ev evs'
    where step: "heartbeat tk st = Inr (st1, ev)" and rest: "run tks st1 = Inr (st', evs')"
      and evs: "evs = ev # evs'"
    by blast
  show ?case
  proof (cases j)
    case 0
    with Cons.prems(4) evs have "Reload \<in> set ev" by simp
    with heartbeat_state [OF step] 0 show ?thesis by auto
  next
    case (Suc k)
    with Cons.prems evs have "k < length tks" "Reload \<in> set (evs' ! k)"
      and clock: "\<forall>tk\<in>set tks. now_guard tk \<le> now_stamp tk"
      by simp_all
    with rest have "lastReloadAt st1 + RELOAD_GUARD_MS \<le> now_guard (tks ! k)"
      by (intro Cons.IH)
    moreover from step Cons.prems(2) have "lastReloadAt st \<le> lastReloadAt st1"
      by (simp add: heartbeat_monotone)
    ultimately show ?thesis
      using Suc by simp
  qed
qed

text \<open>
  Within one run, and with a clock that does not step back between the two readings of
  \<open>safeReload\<close>, two ticks that reload lie a guard window apart.
\<close>

lemma run_reloads_apart:
  "run tks st = Inr (st', evs) \<Longrightarrow> \<forall>tk\<in>set tks. now_guard tk \<le> now_stamp tk \<Longrightarrow>
   i < j \<Longrightarrow> j < length tks \<Longrightarrow> Reload \<in> set (evs ! i) \<Longrightarrow> Reload \<in> set (evs ! j) \<Longrightarrow>
   now_stamp (tks ! i) + RELOAD_GUARD_MS \<le> now_guard (tks ! j)"
proof (induction tks arbitrary: st evs i j)
  case Nil
  then show ?case by simp
next
  case (Cons tk tks)
  from run_Cons [OF Cons.prems(1)] obtain st1 ev evs'
    where step: "heartbeat tk st = Inr (st1, ev)" and rest: "run tks st1 = Inr (st', evs')"
      and evs: "evs = ev # evs'"
    by blast
  from Cons.prems(3) obtain k where j: "j = Suc k"
    by (cases j) auto
  from Cons.prems(2) have clock: "\<forall>tk\<in>set tks. now_guard tk \<le> now_stamp tk"
    by simp
  from Cons.prems(4,6) evs j have k: "k < length tks" "Reload \<in> set (evs' ! k)"
    by simp_all
  show ?case
  proof (cases i)
    case 0
    with Cons.prems(5) evs have "Reload \<in> set ev" by simp
    with heartbeat_state [OF step] have "lastReloadAt st1 = now_stamp tk" by auto
    with run_reload_after_start [OF rest clock k] 0 j show ?thesis by simp
  next
    case (Suc h)
    with Cons.prems(3,5) evs j have "h < k" "Reload \<in> set (evs' ! h)"
      by simp_all
    with rest clock k have "now_stamp (tks ! h) + RELOAD_GUARD_MS \<le> now_guard (tks ! k)"
      by (intro Cons.IH)
    with Suc j show ?thesis by simp
  qed
qed

subsection \<open>The example pages, evaluated\<close>

text \<open>The example page with nothing but an enabled start button, evaluated.\<close>

lemma idle_page_stop: "findBtn ''stop session'' idle_page = None"
  by code_simp

lemma idle_page_start: "findBtn ''start session'' idle_page = Some (button ''Start Session'' False)"
  by code_simp




text \<open>A tick on the empty document asks for a reload at once.\<close>

lemma empty_document:
  "findBtn ''stop session'' [] = None" "findBtn ''start session'' [] = None"
  "isNextChallengeReady [] = Inr (False, [])" "isSolving [] = Inr (False, [])"
  by code_simp+

lemma request_at_clock: "now_guard (request_at t) = t" "now_stamp (request_at t) = t"
  by (simp_all add: request_at_def)

lemma heartbeat_request_at:
  "heartbeat (request_at t) st =
     Inr (if t - lastReloadAt st < RELOAD_GUARD_MS
          then (st, [Log Start_not_visible, Log Reload_guard_active])
          else (st\<lparr>lastReloadAt := t\<rparr>,
                [Log Start_not_visible,
                 Log (Reloading ''session stopped and Start not visible''), Reload]))"
proof -
  have page: "page (request_at t) = []"
    and clock: "now_guard (request_at t) = t" "now_stamp (request_at t) = t"
    by (simp_all add: request_at_def)
  have "tryStart (request_at t) = (False, [])"
    by (simp add: tryStart_absent page empty_document)
  then show ?thesis
    using heartbeat_default [of "request_at t" "[]" "[]" st]
    by (simp add: page clock empty_document start_or_reload_unconfirmed safeReload_def)
qed

lemma request_between_clock:
  "now_guard (request_between t1 t2) = t1" "now_stamp (request_between t1 t2) = t2"
  by (simp_all add: request_between_def)

lemma heartbeat_request_between:
  "heartbeat (request_between t1 t2) st =
     Inr (if t1 - lastReloadAt st < RELOAD_GUARD_MS
          then (st, [Log Start_not_visible, Log Reload_guard_active])
          else (st\<lparr>lastReloadAt := t2\<rparr>,
                [Log Start_not_visible,
                 Log (Reloading ''session stopped and Start not visible''), Reload]))"
proof -
  have page: "page (request_between t1 t2) = []"
    by (simp add: request_between_def)
  have "tryStart (request_between t1 t2) = (False, [])"
    by (simp add: tryStart_absent page empty_document)
  then show ?thesis
    using heartbeat_default [of "request_between t1 t2" "[]" "[]" st]
    by (simp add: page request_between_clock empty_document start_or_reload_unconfirmed
        safeReload_def)
qed

text \<open>The page that shows neither a button nor an indicator, evaluated.\<close>

lemma stalled_page_facts:
  "findBtn ''stop session'' stalled_page = None"
  "findBtn ''start session'' stalled_page = None"
  "isNextChallengeReady stalled_page = Inr (False, [])"
  "isSolving stalled_page = Inr (False, [])"
  by code_simp+

lemma heartbeat_stalled_page:
  "heartbeat (example_tick stalled_page START_WAIT_LOOPS t1 t2) st =
     Inr (if t1 - lastReloadAt st < RELOAD_GUARD_MS
          then (st, [Log Start_not_visible, Log Reload_guard_active])
          else (st\<lparr>lastReloadAt := t2\<rparr>,
                [Log Start_not_visible,
                 Log (Reloading ''session stopped and Start not visible''), Reload]))"
proof -
  let ?tk = "example_tick stalled_page START_WAIT_LOOPS t1 t2"
  have page: "page ?tk = stalled_page"
    and clock: "now_guard ?tk = t1" "now_stamp ?tk = t2"
    by (simp_all add: example_tick_def)
  have "tryStart ?tk = (False, [])"
    by (simp add: tryStart_absent page stalled_page_facts)
  then show ?thesis
    using heartbeat_default [of ?tk "[]" "[]" st]
    by (simp add: page clock stalled_page_facts start_or_reload_unconfirmed safeReload_def)
qed

lemma disabled_page_facts:
  "findBtn ''stop session'' disabled_page = None"
  "findBtn ''start session'' disabled_page = Some (button ''Start Session'' True)"
  "isNextChallengeReady disabled_page = Inr (False, [])"
  "isSolving disabled_page = Inr (False, [])"
  by code_simp+

lemma bare_page_facts:
  "findBtn ''stop session'' bare_page = None"
  "findBtn ''start session'' bare_page = None"
  "isNextChallengeReady bare_page = Inr (False, [])"
  "isSolving bare_page = Inr (False, [])"
  by code_simp+

lemma ready_disabled_page_facts:
  "findBtn ''stop session'' ready_disabled_page = None"
  "findBtn ''start session'' ready_disabled_page = Some (button ''Start Session'' True)"
  "isNextChallengeReady ready_disabled_page = Inr (True, [Log Next_challenge_is_ready])"
  by code_simp+

subsection \<open>Documents with any root element\<close>

text \<open>On an HTML document the two readings agree.\<close>

lemma querySelectorAll_on_html:
  "querySelectorAll_root tags (documentElement doc) = querySelectorAll tags doc"
  by (simp add: querySelectorAll_root_def querySelectorAll_def)

lemma body_on_html: "body_root (documentElement doc) = body doc"
  by (simp add: body_root_def body_def documentElement_def)

lemma scope_of_on_html: "scope_of_root (documentElement doc) row = scope_of doc row"
  by (simp add: scope_of_root_def scope_of_def body_on_html split: option.splits list.splits)

lemma findBtn_on_html: "findBtn_root txt (documentElement doc) = findBtn txt doc"
  by (simp add: findBtn_root_def findBtn_def querySelectorAll_on_html)

lemma solving_rows_on_html: "solving_rows_root (documentElement doc) rows = solving_rows doc rows"
  by (induction rows) (simp_all add: scope_of_on_html split: option.splits list.splits)

lemma next_rows_on_html: "next_rows_root (documentElement doc) rows = next_rows doc rows"
  by (induction rows) (simp_all add: scope_of_on_html split: option.splits list.splits)

lemma isSolving_on_html: "isSolving_root (documentElement doc) = isSolving doc"
  by (simp add: isSolving_root_def isSolving_def querySelectorAll_on_html solving_rows_on_html
      Let_def)

lemma isNextChallengeReady_on_html:
  "isNextChallengeReady_root (documentElement doc) = isNextChallengeReady doc"
  by (simp add: isNextChallengeReady_root_def isNextChallengeReady_def querySelectorAll_on_html
      next_rows_on_html Let_def)

declare poll_root.simps [simp del]

lemma poll_on_html: "poll_root (\<lambda>i. documentElement (docs i)) i = poll docs i"
proof (induction docs i rule: poll.induct)
  case (1 docs i)
  show ?case
  proof (cases "i < START_WAIT_LOOPS")
    case False
    then show ?thesis
      by (simp add: poll.simps [of docs i] poll_root.simps [of _ i])
  next
    case True
    show ?thesis
    proof (cases "findBtn ''stop session'' (docs i)")
      case (Some stop)
      with True show ?thesis
        by (simp add: poll.simps [of docs i] poll_root.simps [of _ i] findBtn_on_html)
    next
      case None
      with True 1 have "poll_root (\<lambda>i. documentElement (docs i)) (Suc i) = poll docs (Suc i)"
        by simp
      with True None show ?thesis
        by (simp add: poll.simps [of docs i] poll_root.simps [of _ i] findBtn_on_html)
    qed
  qed
qed

lemma tryStart_on_html: "tryStart_root (on_html_root tk) = tryStart tk"
  by (simp add: tryStart_root_def tryStart_def on_html_root_def findBtn_on_html poll_on_html
      split: option.splits)

lemma safeReload_on_html: "safeReload_root reason (on_html_root tk) st = safeReload reason tk st"
  by (simp add: safeReload_root_def safeReload_def on_html_root_def)

lemma start_or_reload_on_html:
  "start_or_reload_root reason (on_html_root tk) st = start_or_reload reason tk st"
  by (simp add: start_or_reload_root_def start_or_reload_def tryStart_on_html safeReload_on_html
      split: prod.splits)

lemma root_page_on_html: "root_page (on_html_root tk) = documentElement (page tk)"
  by (simp add: on_html_root_def)

lemma heartbeat_on_html: "heartbeat_root (on_html_root tk) st = heartbeat tk st"
  by (simp add: heartbeat_root_def heartbeat_def root_page_on_html findBtn_on_html
      isNextChallengeReady_on_html isSolving_on_html start_or_reload_on_html
      split: option.splits sum.splits prod.splits)

section \<open>The claims\<close>

text \<open>
  C1. The script does issue two reloads within the guard window. On a page that shows no
  stop button, no indicator and no start button, the first tick of a page load, at
  1793707200000 ms, reloads and sets the timestamp. The page loads again, the script
  starts again with the timestamp at 0, and the first tick of the new page, 5000 ms
  later and on the same page, reloads again: the guard compares the clock with 0, not
  with the time of the reload before. Had the timestamp outlived the page load, as it
  does between the ticks of one run, the second request would have been blocked.
\<close>

theorem reload_repeats_after_page_load:
  "run_across_loads
     [example_tick stalled_page START_WAIT_LOOPS 1793707200000 1793707200000,
      example_tick stalled_page START_WAIT_LOOPS 1793707205000 1793707205000] init =
     Inr [[Log Start_not_visible,
           Log (Reloading ''session stopped and Start not visible''), Reload],
          [Log Start_not_visible,
           Log (Reloading ''session stopped and Start not visible''), Reload]] \<and>
   (1793707205000 :: int) - 1793707200000 < RELOAD_GUARD_MS \<and>
   heartbeat (example_tick stalled_page START_WAIT_LOOPS 1793707200000 1793707200000) init =
     Inr (\<lparr>lastReloadAt = 1793707200000\<rparr>,
          [Log Start_not_visible,
           Log (Reloading ''session stopped and Start not visible''), Reload]) \<and>
   heartbeat (example_tick stalled_page START_WAIT_LOOPS 1793707205000 1793707205000) init =
     Inr (\<lparr>lastReloadAt = 1793707205000\<rparr>,
          [Log Start_not_visible,
           Log (Reloading ''session stopped and Start not visible''), Reload]) \<and>
   heartbeat (example_tick stalled_page START_WAIT_LOOPS 1793707205000 1793707205000)
       \<lparr>lastReloadAt = 1793707200000\<rparr> =
     Inr (\<lparr>lastReloadAt = 1793707200000\<rparr>, [Log Start_not_visible, Log Reload_guard_active])"
  by (simp add: heartbeat_stalled_page init_def RELOAD_GUARD_MS_def)

text \<open>
  C2. In every tick that finds, among the buttons of the page, one whose lower-cased
  label contains "stop session", the heartbeat logs that the session is running and
  returns: the state is unchanged, nothing is clicked and nothing is reloaded.
\<close>

theorem heartbeat_running_no_action:
  assumes "\<exists>b\<in>set (map fst (querySelectorAll [''button''] (page tk))).
             includes_str (toLowerCase (textContent b)) ''stop session''"
  shows "heartbeat tk st = Inr (st, [Log Session_running]) \<and>
         (\<exists>ev. heartbeat tk st = Inr (st, ev) \<and> clicked ev = [] \<and> Reload \<notin> set ev)"
proof -
  from assms have "findBtn ''stop session'' (page tk) \<noteq> None"
    unfolding findBtn_None_iff toLowerCase_stop by blast
  then show ?thesis
    by (auto simp: heartbeat_running)
qed

theorem heartbeat_running_no_action_witness:
  "(\<exists>b\<in>set (map fst (querySelectorAll [''button''] (page (example_tick running_page 0 0 0)))).
       includes_str (toLowerCase (textContent b)) ''stop session'') \<and>
   heartbeat (example_tick running_page 0 0 0) init = Inr (init, [Log Session_running])"
proof -
  have present: "\<exists>b\<in>set (map fst (querySelectorAll [''button''] (page (example_tick running_page 0 0 0)))).
       includes_str (toLowerCase (textContent b)) ''stop session''"
    by code_simp
  from heartbeat_running_no_action [OF present, of init] present show ?thesis
    by blast
qed

text \<open>
  C3. In every tick with no stop button in which \<open>isNextChallengeReady\<close> returns true
  (some row shows "next challenge in" with a time whose parts are all zero), the
  heartbeat calls \<open>tryStart\<close>: the events of \<open>tryStart\<close> follow the two console lines
  of the branch, an enabled start button is clicked, and only the reload-or-skip decision
  of an unconfirmed start comes after them. Nothing is assumed about \<open>isSolving\<close>: the
  branch does not consult it, so the same holds while a challenge is shown as being solved.
\<close>

theorem heartbeat_ready_bypasses_solving:
  assumes "findBtn ''stop session'' (page tk) = None"
    and "isNextChallengeReady (page tk) = Inr (True, ev1)"
  shows "\<exists>st' ev2. heartbeat tk st =
            Inr (st', ev1 @ Log Next_challenge_ready_proceeding # snd (tryStart tk) @ ev2) \<and>
          (st', ev2) =
            (if fst (tryStart tk) then (st, [])
             else (fst (safeReload ''Next challenge ready but Start not visible'' tk st),
                   Log Start_not_visible #
                     snd (safeReload ''Next challenge ready but Start not visible'' tk st))) \<and>
          (\<forall>b. findBtn ''start session'' (page tk) = Some b \<and> \<not> disabled b \<longrightarrow>
             clicked (ev1 @ Log Next_challenge_ready_proceeding # snd (tryStart tk) @ ev2) = [b])"
proof -
  from isNextChallengeReady_result [of "page tk"] assms(2)
  have ev1: "ev1 = [Log Next_challenge_is_ready]" by auto
  let ?reason = "''Next challenge ready but Start not visible''"
  let ?ev2 = "if fst (tryStart tk) then []
              else Log Start_not_visible # snd (safeReload ?reason tk st)"
  let ?st' = "if fst (tryStart tk) then st else fst (safeReload ?reason tk st)"
  have no_click: "clicked ?ev2 = []"
    by (cases "now_guard tk - lastReloadAt st < RELOAD_GUARD_MS")
      (simp_all add: safeReload_blocked safeReload_allowed)
  have "heartbeat tk st =
          Inr (?st', ev1 @ Log Next_challenge_ready_proceeding # snd (tryStart tk) @ ?ev2)"
    using assms by (simp add: heartbeat_ready start_or_reload_confirmed start_or_reload_unconfirmed)
  moreover have "(?st', ?ev2) =
            (if fst (tryStart tk) then (st, [])
             else (fst (safeReload ?reason tk st),
                   Log Start_not_visible # snd (safeReload ?reason tk st)))"
    by simp
  moreover have "\<forall>b. findBtn ''start session'' (page tk) = Some b \<and> \<not> disabled b \<longrightarrow>
             clicked (ev1 @ Log Next_challenge_ready_proceeding # snd (tryStart tk) @ ?ev2) = [b]"
    using no_click by (simp add: ev1 clicked_append tryStart_clicks)
  ultimately show ?thesis by blast
qed

theorem heartbeat_ready_bypasses_solving_witness:
  "findBtn ''stop session'' (page (example_tick ready_solving_page 2 0 0)) = None \<and>
   isNextChallengeReady (page (example_tick ready_solving_page 2 0 0))
     = Inr (True, [Log Next_challenge_is_ready]) \<and>
   isSolving (page (example_tick ready_solving_page 2 0 0))
     = Inr (True, [Log Challenge_appears_active]) \<and>
   heartbeat (example_tick ready_solving_page 2 0 0) init =
     Inr (init, [Log Next_challenge_is_ready, Log Next_challenge_ready_proceeding,
                 Log Starting_session, Click (button ''Start Session'' False),
                 Wait 500, Wait 500, Wait 500, Log Session_started])"
proof -
  let ?tk = "example_tick ready_solving_page 2 0 0"
  have stop: "findBtn ''stop session'' (page ?tk) = None"
    by code_simp
  have ready: "isNextChallengeReady (page ?tk) = Inr (True, [Log Next_challenge_is_ready])"
    by code_simp
  have solving: "isSolving (page ?tk) = Inr (True, [Log Challenge_appears_active])"
    by code_simp
  have start: "tryStart ?tk = (True, [Log Starting_session, Click (button ''Start Session'' False),
                 Wait 500, Wait 500, Wait 500, Log Session_started])"
    by code_simp
  from heartbeat_ready_bypasses_solving [OF stop ready, of init] stop ready solving start
  show ?thesis
    by auto
qed

text \<open>
  C4. In every tick in which \<open>tryStart\<close> returns true, that is, an enabled start button
  was clicked and a stop button was found in one of the 16 rounds of the confirmation
  loop, the heartbeat returns with the state unchanged and without a reload among its
  events, on the next-challenge-ready path and on the default path alike.
\<close>

theorem confirmed_start_no_reload:
  assumes "fst (tryStart tk)"
  shows "(\<exists>ev. heartbeat tk st = Inr (st, ev) \<and> Reload \<notin> set ev) \<and>
         (\<exists>b. findBtn ''start session'' (page tk) = Some b \<and> \<not> disabled b) \<and>
         (\<exists>j<START_WAIT_LOOPS. findBtn ''stop session'' (polled tk j) \<noteq> None)"
proof -
  have quiet: "Reload \<notin> set (pre @ snd (tryStart tk))" if "only_logs pre" for pre
    using that tryStart_events [of tk] only_logs_clicked [of pre] by simp
  from heartbeat_cases [of tk st] assms
  have "\<exists>ev. heartbeat tk st = Inr (st, ev) \<and> Reload \<notin> set ev"
    using quiet only_logs_clicked by (elim disjE conjE exE) auto
  with assms show ?thesis
    by (simp add: tryStart_confirmed_iff)
qed

theorem confirmed_start_no_reload_witness:
  "fst (tryStart (example_tick idle_page 1 100000 100000)) \<and>
   heartbeat (example_tick idle_page 1 100000 100000) init =
     Inr (init, [Log Starting_session, Click (button ''Start Session'' False),
                 Wait 500, Wait 500, Log Session_started])"
proof -
  let ?tk = "example_tick idle_page 1 100000 100000"
  have started: "tryStart ?tk =
      (True, [Log Starting_session, Click (button ''Start Session'' False),
                 Wait 500, Wait 500, Log Session_started])"
    by code_simp
  then have confirmed: "fst (tryStart ?tk)" by simp
  have quiet: "findBtn ''stop session'' (page ?tk) = None"
    "isNextChallengeReady (page ?tk) = Inr (False, [])" "isSolving (page ?tk) = Inr (False, [])"
    by code_simp+
  from confirmed_start_no_reload [OF confirmed, of init] started quiet show ?thesis
    by (simp add: heartbeat_default start_or_reload_confirmed)
qed





text \<open>
  C7 (amended). The timestamp starts at 0. A tick leaves the state as it was or, when
  the guard lets a reload pass, sets the timestamp to the value of \<open>now()\<close> read for it; no other
  function of the script takes or returns the state. Provided the clock does not run
  backwards between the two calls of \<open>now()\<close> in \<open>safeReload\<close>, a tick never lowers
  the timestamp, a tick that changes it raises it by the guard window at least, and so
  over any run of ticks from any state the timestamp does not decrease.
\<close>

theorem lastReloadAt_never_decreases:
  "lastReloadAt init = 0 \<and>
   (\<forall>tk st st' ev. heartbeat tk st = Inr (st', ev) \<longrightarrow>
      st' = st \<or> ((\<exists>reason. st' = fst (safeReload reason tk st)) \<and>
                  lastReloadAt st' = now_stamp tk \<and> Reload \<in> set ev \<and>
                  lastReloadAt st + RELOAD_GUARD_MS \<le> now_guard tk)) \<and>
   (\<forall>tk st st' ev. heartbeat tk st = Inr (st', ev) \<and> now_guard tk \<le> now_stamp tk \<longrightarrow>
      lastReloadAt st \<le> lastReloadAt st' \<and>
      (st' \<noteq> st \<longrightarrow> lastReloadAt st + RELOAD_GUARD_MS \<le> lastReloadAt st')) \<and>
   (\<forall>tks st st' evs. run tks st = Inr (st', evs) \<and> (\<forall>tk\<in>set tks. now_guard tk \<le> now_stamp tk) \<longrightarrow>
      lastReloadAt st \<le> lastReloadAt st')"
proof (intro conjI allI impI)
  show "lastReloadAt init = 0" by (simp add: init_def)
next
  fix tk st st' ev assume "heartbeat tk st = Inr (st', ev)"
  from heartbeat_state [OF this]
  show "st' = st \<or> ((\<exists>reason. st' = fst (safeReload reason tk st)) \<and>
                  lastReloadAt st' = now_stamp tk \<and> Reload \<in> set ev \<and>
                  lastReloadAt st + RELOAD_GUARD_MS \<le> now_guard tk)"
    by (auto simp: safeReload_allowed)
next
  fix tk st st' ev assume "heartbeat tk st = Inr (st', ev) \<and> now_guard tk \<le> now_stamp tk"
  then show "lastReloadAt st \<le> lastReloadAt st'"
    by (auto intro: heartbeat_monotone)
next
  fix tk st st' ev
  assume "heartbeat tk st = Inr (st', ev) \<and> now_guard tk \<le> now_stamp tk" and "st' \<noteq> st"
  with heartbeat_state [of tk st st' ev]
  show "lastReloadAt st + RELOAD_GUARD_MS \<le> lastReloadAt st'"
    by auto
next
  fix tks st st' evs
  assume "run tks st = Inr (st', evs) \<and> (\<forall>tk\<in>set tks. now_guard tk \<le> now_stamp tk)"
  then show "lastReloadAt st \<le> lastReloadAt st'"
    by (auto intro: run_monotone)
qed

theorem lastReloadAt_never_decreases_witness:
  "run [request_at 100000, request_at 130000, request_at 161000] init =
     Inr (\<lparr>lastReloadAt = 161000\<rparr>,
          [[Log Start_not_visible,
            Log (Reloading ''session stopped and Start not visible''), Reload],
           [Log Start_not_visible, Log Reload_guard_active],
           [Log Start_not_visible,
            Log (Reloading ''session stopped and Start not visible''), Reload]]) \<and>
   now_guard (request_at 100000) \<le> now_stamp (request_at 100000) \<and>
   now_guard (request_at 130000) \<le> now_stamp (request_at 130000) \<and>
   now_guard (request_at 161000) \<le> now_stamp (request_at 161000) \<and>
   lastReloadAt init \<le> lastReloadAt \<lparr>lastReloadAt = 161000\<rparr>"
proof -
  let ?tks = "[request_at 100000, request_at 130000, request_at 161000]"
  have ran: "run ?tks init =
     Inr (\<lparr>lastReloadAt = 161000\<rparr>,
          [[Log Start_not_visible,
            Log (Reloading ''session stopped and Start not visible''), Reload],
           [Log Start_not_visible, Log Reload_guard_active],
           [Log Start_not_visible,
            Log (Reloading ''session stopped and Start not visible''), Reload]])"
    by (simp add: heartbeat_request_at init_def RELOAD_GUARD_MS_def)
  have clock: "\<forall>tk\<in>set ?tks. now_guard tk \<le> now_stamp tk"
    by (simp add: request_at_def)
  from lastReloadAt_never_decreases ran clock
  have "lastReloadAt init \<le> lastReloadAt \<lparr>lastReloadAt = 161000\<rparr>"
    by blast
  with ran show ?thesis
    by (simp add: request_at_def)
qed

text \<open>
  Without the proviso on the clock the timestamp can go down: after a reload stamped
  1793707200000, a tick whose guard reads the clock 60 s later and whose stamp reads it
  after a step back of the clock sets the timestamp to 1793707199999.
\<close>

theorem lastReloadAt_decreases_when_clock_steps_back:
  "run [request_at 1793707200000, request_between 1793707260000 1793707199999] init =
     Inr (\<lparr>lastReloadAt = 1793707199999\<rparr>,
          [[Log Start_not_visible,
            Log (Reloading ''session stopped and Start not visible''), Reload],
           [Log Start_not_visible,
            Log (Reloading ''session stopped and Start not visible''), Reload]]) \<and>
   heartbeat (request_between 1793707260000 1793707199999) \<lparr>lastReloadAt = 1793707200000\<rparr> =
     Inr (\<lparr>lastReloadAt = 1793707199999\<rparr>,
          [Log Start_not_visible,
           Log (Reloading ''session stopped and Start not visible''), Reload]) \<and>
   lastReloadAt \<lparr>lastReloadAt = 1793707199999\<rparr> < lastReloadAt \<lparr>lastReloadAt = 1793707200000\<rparr>"
  by (simp add: heartbeat_request_at heartbeat_request_between init_def RELOAD_GUARD_MS_def)

text \<open>
  C8. The confirmation loop is defined by recursion on the rounds left, so \<open>tryStart\<close>
  returns on every input. Its events hold at most \<open>START_WAIT_LOOPS\<close> = 16 waits, each
  of \<open>START_WAIT_STEPMS\<close> = 500 ms (8000 ms in all at most), and at most one click. When
  an enabled start button is clicked and no round of the loop finds a stop button,
  \<open>tryStart\<close> returns false after exactly 16 waits. A tick calls \<open>tryStart\<close> at most
  once: the events of a whole tick hold at most one click and at most 16 waits.
\<close>

theorem tryStart_polling_bounded:
  "START_WAIT_LOOPS = 16 \<and> START_WAIT_STEPMS = 500 \<and>
   (\<exists>r ev. tryStart tk = (r, ev) \<and> length (clicked ev) \<le> 1 \<and>
      (\<exists>n\<le>START_WAIT_LOOPS. waits ev = replicate n START_WAIT_STEPMS) \<and>
      sum_list (waits ev) \<le> 8000) \<and>
   (\<forall>b. findBtn ''start session'' (page tk) = Some b \<and> \<not> disabled b \<and>
        (\<forall>j<START_WAIT_LOOPS. findBtn ''stop session'' (polled tk j) = None) \<longrightarrow>
      tryStart tk =
        (False, Log Starting_session # Click b #
                replicate START_WAIT_LOOPS (Wait START_WAIT_STEPMS) @ [Log Start_not_confirmed])) \<and>
   (\<forall>st st' ev. heartbeat tk st = Inr (st', ev) \<longrightarrow>
      length (clicked ev) \<le> 1 \<and> length (waits ev) \<le> START_WAIT_LOOPS)"
proof (intro conjI allI impI)
  show "START_WAIT_LOOPS = 16" "START_WAIT_STEPMS = 500"
    by (simp_all add: START_WAIT_LOOPS_def START_WAIT_STEPMS_def)
next
  from tryStart_events [of tk] obtain n where n: "n \<le> START_WAIT_LOOPS"
    and w: "waits (snd (tryStart tk)) = replicate n START_WAIT_STEPMS"
    and c: "length (clicked (snd (tryStart tk))) \<le> 1"
    by blast
  from n have "n * START_WAIT_STEPMS \<le> 16 * 500"
    unfolding START_WAIT_LOOPS_def START_WAIT_STEPMS_def by simp
  with w have "sum_list (waits (snd (tryStart tk))) \<le> 8000"
    by (simp add: sum_list_replicate)
  with n w c show "\<exists>r ev. tryStart tk = (r, ev) \<and> length (clicked ev) \<le> 1 \<and>
      (\<exists>n\<le>START_WAIT_LOOPS. waits ev = replicate n START_WAIT_STEPMS) \<and>
      sum_list (waits ev) \<le> 8000"
    by (intro exI [of _ "fst (tryStart tk)"] exI [of _ "snd (tryStart tk)"]) auto
next
  fix b
  assume "findBtn ''start session'' (page tk) = Some b \<and> \<not> disabled b \<and>
        (\<forall>j<START_WAIT_LOOPS. findBtn ''stop session'' (polled tk j) = None)"
  then have start: "findBtn ''start session'' (page tk) = Some b" "\<not> disabled b"
    and never: "\<forall>j. 0 \<le> j \<and> j < START_WAIT_LOOPS \<longrightarrow> findBtn ''stop session'' (polled tk j) = None"
    by simp_all
  from poll_exhausted [OF never] start
  show "tryStart tk =
        (False, Log Starting_session # Click b #
                replicate START_WAIT_LOOPS (Wait START_WAIT_STEPMS) @ [Log Start_not_confirmed])"
    by (simp add: tryStart_enabled)
next
  fix st st' ev assume tick: "heartbeat tk st = Inr (st', ev)"
  from tryStart_events [of tk] have "length (clicked (snd (tryStart tk))) \<le> 1"
    and "length (waits (snd (tryStart tk))) \<le> START_WAIT_LOOPS"
    by auto
  with heartbeat_clicks_waits [OF tick]
  show "length (clicked ev) \<le> 1" "length (waits ev) \<le> START_WAIT_LOOPS"
    by auto
qed

theorem tryStart_polling_bounded_witness:
  "findBtn ''start session'' (page (example_tick idle_page START_WAIT_LOOPS 0 0))
     = Some (button ''Start Session'' False) \<and>
   \<not> disabled (button ''Start Session'' False) \<and>
   list_all (\<lambda>j. findBtn ''stop session'' (polled (example_tick idle_page START_WAIT_LOOPS 0 0) j) = None)
     [0..<START_WAIT_LOOPS] \<and>
   tryStart (example_tick idle_page START_WAIT_LOOPS 0 0) =
     (False, Log Starting_session # Click (button ''Start Session'' False) #
             replicate 16 (Wait 500) @ [Log Start_not_confirmed])"
proof -
  let ?tk = "example_tick idle_page START_WAIT_LOOPS 0 0"
  have start: "findBtn ''start session'' (page ?tk) = Some (button ''Start Session'' False)"
    by (simp add: example_tick_def idle_page_start)
  have enabled: "\<not> disabled (button ''Start Session'' False)"
    by (simp add: button_def)
  have never: "\<forall>j<START_WAIT_LOOPS. findBtn ''stop session'' (polled ?tk j) = None"
    by (simp add: example_tick_def idle_page_stop)
  from tryStart_polling_bounded [of ?tk] start enabled never
  have "tryStart ?tk =
     (False, Log Starting_session # Click (button ''Start Session'' False) #
             replicate START_WAIT_LOOPS (Wait START_WAIT_STEPMS) @ [Log Start_not_confirmed])"
    by blast
  with start enabled never show ?thesis
    by (simp add: list_all_iff START_WAIT_LOOPS_def START_WAIT_STEPMS_def)
qed

text \<open>
  C9. On an HTML document a tick never raises: every row lies below the \<open>html\<close> root
  and has a parent element, so its scope is never null (\<open>heartbeat_returns\<close>, and
  \<open>heartbeat_on_html\<close> for the reading by root). On a document whose root is a
  \<open>span\<close> reading "Finding a solution" the tick does raise: no button and no
  "next challenge in" row is found, both as ordinary negatives, but \<open>isSolving\<close>
  takes the root as its row, \<open>closest("div")\<close>, \<open>parentElement\<close> and
  \<open>document.body\<close> are all null, and reading \<open>textContent\<close> of the scope throws a
  TypeError, which ends the tick.
\<close>

theorem heartbeat_raises_on_span_root:
  "findBtn_root ''stop session'' span_document = None \<and>
   isNextChallengeReady_root span_document = Inr (False, []) \<and>
   querySelectorAll_root [''div'', ''span'', ''li'', ''section''] span_document
     = [(span_document, [])] \<and>
   scope_of_root span_document (span_document, []) = None \<and>
   isSolving_root span_document = Inl TypeError \<and>
   heartbeat_root (span_tick 1793707200000) init = Inl TypeError"
proof -
  have stop: "findBtn_root ''stop session'' span_document = None"
    by code_simp
  have waiting: "isNextChallengeReady_root span_document = Inr (False, [])"
    by code_simp
  have rows: "querySelectorAll_root [''div'', ''span'', ''li'', ''section''] span_document
     = [(span_document, [])]"
    by code_simp
  have scope: "scope_of_root span_document (span_document, []) = None"
    by code_simp
  have solving: "isSolving_root span_document = Inl TypeError"
    by code_simp
  have "heartbeat_root (span_tick 1793707200000) init = Inl TypeError"
    by (simp add: heartbeat_root_def span_tick_def stop waiting solving)
  with stop waiting rows scope solving show ?thesis
    by simp
qed

text \<open>
  C10. When the first button whose label contains "start session" is disabled,
  \<open>tryStart\<close> returns false at once, with no console line, no click and no wait, which
  is what it returns when there is no such button. A tick that gets as far as
  \<open>tryStart\<close> then goes on to the reload-or-skip decision: with no stop button, on the
  next-challenge-ready path and on the default path (not ready, not solving) alike, the
  heartbeat logs "Start not visible" and calls \<open>safeReload\<close>, which skips inside the
  guard window and reloads otherwise. The tick is the one the heartbeat would make of a
  page without the button: two ticks that differ only in that one finds a disabled start
  button and the other none give the same state and the same events.
\<close>

theorem tryStart_disabled_as_absent:
  assumes "findBtn ''start session'' (page tk) = Some b" and "disabled b"
  shows "tryStart tk = (False, []) \<and>
         (\<forall>tk'. findBtn ''start session'' (page tk') = None \<longrightarrow> tryStart tk' = tryStart tk) \<and>
         (\<forall>st st' ev. heartbeat tk st = Inr (st', ev) \<longrightarrow> clicked ev = [] \<and> waits ev = []) \<and>
         (\<forall>st ev1. findBtn ''stop session'' (page tk) = None \<and>
              isNextChallengeReady (page tk) = Inr (True, ev1) \<longrightarrow>
            heartbeat tk st =
              Inr (if now_guard tk - lastReloadAt st < RELOAD_GUARD_MS
                   then (st, ev1 @ [Log Next_challenge_ready_proceeding, Log Start_not_visible,
                                    Log Reload_guard_active])
                   else (st\<lparr>lastReloadAt := now_stamp tk\<rparr>,
                         ev1 @ [Log Next_challenge_ready_proceeding, Log Start_not_visible,
                                Log (Reloading ''Next challenge ready but Start not visible''),
                                Reload]))) \<and>
         (\<forall>st ev1 ev3. findBtn ''stop session'' (page tk) = None \<and>
              isNextChallengeReady (page tk) = Inr (False, ev1) \<and>
              isSolving (page tk) = Inr (False, ev3) \<longrightarrow>
            heartbeat tk st =
              Inr (if now_guard tk - lastReloadAt st < RELOAD_GUARD_MS
                   then (st, ev1 @ ev3 @ [Log Start_not_visible, Log Reload_guard_active])
                   else (st\<lparr>lastReloadAt := now_stamp tk\<rparr>,
                         ev1 @ ev3 @
                           [Log Start_not_visible,
                            Log (Reloading ''session stopped and Start not visible''),
                            Reload]))) \<and>
         (\<forall>tk' st. findBtn ''start session'' (page tk') = None \<and>
              findBtn ''stop session'' (page tk') = findBtn ''stop session'' (page tk) \<and>
              isNextChallengeReady (page tk') = isNextChallengeReady (page tk) \<and>
              isSolving (page tk') = isSolving (page tk) \<and>
              now_guard tk' = now_guard tk \<and> now_stamp tk' = now_stamp tk \<longrightarrow>
            heartbeat tk' st = heartbeat tk st)"
proof -
  from assms have none: "tryStart tk = (False, [])"
    by (rule tryStart_disabled)
  show ?thesis
  proof (intro conjI allI impI)
    show "tryStart tk = (False, [])" by (rule none)
  next
    fix tk' :: tick assume "findBtn ''start session'' (page tk') = None"
    with none show "tryStart tk' = tryStart tk" by (simp add: tryStart_absent)
  next
    fix st st' ev assume tick: "heartbeat tk st = Inr (st', ev)"
    from heartbeat_clicks_waits [OF tick] none show "clicked ev = []" by auto
    from heartbeat_clicks_waits [OF tick] none show "waits ev = []" by auto
  next
    fix st ev1
    assume "findBtn ''stop session'' (page tk) = None \<and>
              isNextChallengeReady (page tk) = Inr (True, ev1)"
    with none show "heartbeat tk st =
              Inr (if now_guard tk - lastReloadAt st < RELOAD_GUARD_MS
                   then (st, ev1 @ [Log Next_challenge_ready_proceeding, Log Start_not_visible,
                                    Log Reload_guard_active])
                   else (st\<lparr>lastReloadAt := now_stamp tk\<rparr>,
                         ev1 @ [Log Next_challenge_ready_proceeding, Log Start_not_visible,
                                Log (Reloading ''Next challenge ready but Start not visible''),
                                Reload]))"
      by (simp add: heartbeat_ready start_or_reload_unconfirmed safeReload_def)
  next
    fix st ev1 ev3
    assume "findBtn ''stop session'' (page tk) = None \<and>
              isNextChallengeReady (page tk) = Inr (False, ev1) \<and>
              isSolving (page tk) = Inr (False, ev3)"
    with none show "heartbeat tk st =
              Inr (if now_guard tk - lastReloadAt st < RELOAD_GUARD_MS
                   then (st, ev1 @ ev3 @ [Log Start_not_visible, Log Reload_guard_active])
                   else (st\<lparr>lastReloadAt := now_stamp tk\<rparr>,
                         ev1 @ ev3 @
                           [Log Start_not_visible,
                            Log (Reloading ''session stopped and Start not visible''),
                            Reload]))"
      by (simp add: heartbeat_default start_or_reload_unconfirmed safeReload_def)
  next
    fix tk' :: tick and st
    assume same: "findBtn ''start session'' (page tk') = None \<and>
              findBtn ''stop session'' (page tk') = findBtn ''stop session'' (page tk) \<and>
              isNextChallengeReady (page tk') = isNextChallengeReady (page tk) \<and>
              isSolving (page tk') = isSolving (page tk) \<and>
              now_guard tk' = now_guard tk \<and> now_stamp tk' = now_stamp tk"
    then have "tryStart tk' = tryStart tk"
      using none by (simp add: tryStart_absent)
    with same show "heartbeat tk' st = heartbeat tk st"
      by (intro heartbeat_cong) simp_all
  qed
qed

theorem tryStart_disabled_as_absent_witness:
  "findBtn ''start session'' (page (example_tick disabled_page 0 1793707200000 1793707200002))
     = Some (button ''Start Session'' True) \<and>
   disabled (button ''Start Session'' True) \<and>
   tryStart (example_tick disabled_page 0 1793707200000 1793707200002) = (False, []) \<and>
   heartbeat (example_tick disabled_page 0 1793707200000 1793707200002) init =
     Inr (\<lparr>lastReloadAt = 1793707200002\<rparr>,
          [Log Start_not_visible,
           Log (Reloading ''session stopped and Start not visible''), Reload]) \<and>
   heartbeat (example_tick disabled_page 0 1793707200000 1793707200002)
       \<lparr>lastReloadAt = 1793707190000\<rparr> =
     Inr (\<lparr>lastReloadAt = 1793707190000\<rparr>, [Log Start_not_visible, Log Reload_guard_active]) \<and>
   findBtn ''start session'' (page (example_tick bare_page 0 1793707200000 1793707200002)) = None \<and>
   heartbeat (example_tick bare_page 0 1793707200000 1793707200002) init =
     heartbeat (example_tick disabled_page 0 1793707200000 1793707200002) init \<and>
   heartbeat (example_tick ready_disabled_page 0 1793707200000 1793707200002) init =
     Inr (\<lparr>lastReloadAt = 1793707200002\<rparr>,
          [Log Next_challenge_is_ready, Log Next_challenge_ready_proceeding,
           Log Start_not_visible,
           Log (Reloading ''Next challenge ready but Start not visible''), Reload])"
proof -
  let ?tk = "example_tick disabled_page 0 1793707200000 1793707200002"
  let ?tk' = "example_tick bare_page 0 1793707200000 1793707200002"
  let ?tk'' = "example_tick ready_disabled_page 0 1793707200000 1793707200002"
  have tick: "page ?tk = disabled_page" "now_guard ?tk = 1793707200000"
    "now_stamp ?tk = 1793707200002"
    and tick': "page ?tk' = bare_page" "now_guard ?tk' = 1793707200000"
    "now_stamp ?tk' = 1793707200002"
    and tick'': "page ?tk'' = ready_disabled_page" "now_guard ?tk'' = 1793707200000"
    "now_stamp ?tk'' = 1793707200002"
    by (simp_all add: example_tick_def)
  have found: "findBtn ''start session'' (page ?tk) = Some (button ''Start Session'' True)"
    and found'': "findBtn ''start session'' (page ?tk'') = Some (button ''Start Session'' True)"
    by (simp_all add: tick tick'' disabled_page_facts ready_disabled_page_facts)
  have off: "disabled (button ''Start Session'' True)"
    by (simp add: button_def)
  note plain = tryStart_disabled_as_absent [OF found off]
  note ready = tryStart_disabled_as_absent [OF found'' off]
  from plain have none: "tryStart ?tk = (False, [])"
    by blast
  from plain have "\<forall>st ev1 ev3. findBtn ''stop session'' (page ?tk) = None \<and>
              isNextChallengeReady (page ?tk) = Inr (False, ev1) \<and>
              isSolving (page ?tk) = Inr (False, ev3) \<longrightarrow>
            heartbeat ?tk st =
              Inr (if now_guard ?tk - lastReloadAt st < RELOAD_GUARD_MS
                   then (st, ev1 @ ev3 @ [Log Start_not_visible, Log Reload_guard_active])
                   else (st\<lparr>lastReloadAt := now_stamp ?tk\<rparr>,
                         ev1 @ ev3 @
                           [Log Start_not_visible,
                            Log (Reloading ''session stopped and Start not visible''),
                            Reload]))"
    by blast
  then have "heartbeat ?tk st =
      Inr (if 1793707200000 - lastReloadAt st < RELOAD_GUARD_MS
           then (st, [Log Start_not_visible, Log Reload_guard_active])
           else (st\<lparr>lastReloadAt := 1793707200002\<rparr>,
                 [Log Start_not_visible,
                  Log (Reloading ''session stopped and Start not visible''), Reload]))" for st
    using disabled_page_facts by (simp add: tick)
  then have reloads: "heartbeat ?tk init =
     Inr (\<lparr>lastReloadAt = 1793707200002\<rparr>,
          [Log Start_not_visible,
           Log (Reloading ''session stopped and Start not visible''), Reload])"
    and skips: "heartbeat ?tk \<lparr>lastReloadAt = 1793707190000\<rparr> =
     Inr (\<lparr>lastReloadAt = 1793707190000\<rparr>, [Log Start_not_visible, Log Reload_guard_active])"
    by (simp_all add: init_def RELOAD_GUARD_MS_def)
  have absent: "findBtn ''start session'' (page ?tk') = None"
    by (simp add: tick' bare_page_facts)
  have "findBtn ''start session'' (page ?tk') = None \<and>
        findBtn ''stop session'' (page ?tk') = findBtn ''stop session'' (page ?tk) \<and>
        isNextChallengeReady (page ?tk') = isNextChallengeReady (page ?tk) \<and>
        isSolving (page ?tk') = isSolving (page ?tk) \<and>
        now_guard ?tk' = now_guard ?tk \<and> now_stamp ?tk' = now_stamp ?tk"
    by (simp add: tick tick' bare_page_facts disabled_page_facts)
  with plain have same: "heartbeat ?tk' init = heartbeat ?tk init"
    by blast
  from ready have "\<forall>st ev1. findBtn ''stop session'' (page ?tk'') = None \<and>
              isNextChallengeReady (page ?tk'') = Inr (True, ev1) \<longrightarrow>
            heartbeat ?tk'' st =
              Inr (if now_guard ?tk'' - lastReloadAt st < RELOAD_GUARD_MS
                   then (st, ev1 @ [Log Next_challenge_ready_proceeding, Log Start_not_visible,
                                    Log Reload_guard_active])
                   else (st\<lparr>lastReloadAt := now_stamp ?tk''\<rparr>,
                         ev1 @ [Log Next_challenge_ready_proceeding, Log Start_not_visible,
                                Log (Reloading ''Next challenge ready but Start not visible''),
                                Reload]))"
    by blast
  then have "heartbeat ?tk'' st =
      Inr (if 1793707200000 - lastReloadAt st < RELOAD_GUARD_MS
           then (st, [Log Next_challenge_is_ready, Log Next_challenge_ready_proceeding,
                      Log Start_not_visible, Log Reload_guard_active])
           else (st\<lparr>lastReloadAt := 1793707200002\<rparr>,
                 [Log Next_challenge_is_ready, Log Next_challenge_ready_proceeding,
                  Log Start_not_visible,
                  Log (Reloading ''Next challenge ready but Start not visible''),
                  Reload]))" for st
    using ready_disabled_page_facts by (simp add: tick'')
  then have ready_reloads: "heartbeat ?tk'' init =
     Inr (\<lparr>lastReloadAt = 1793707200002\<rparr>,
          [Log Next_challenge_is_ready, Log Next_challenge_ready_proceeding,
           Log Start_not_visible,
           Log (Reloading ''Next challenge ready but Start not visible''), Reload])"
    by (simp add: init_def RELOAD_GUARD_MS_def)
  from found off none reloads skips absent same ready_reloads show ?thesis
    by simp
qed

end
